theory Spec2Isabelle
  imports Complex_Main "HOL-Library.Sublist"
begin

section \<open>JavaScript values of the proxy\<close>

text \<open>
  The two serverless handlers (\<^verbatim>\<open>api/odds.js\<close> and \<^verbatim>\<open>api/events/[id].js\<close>, the latter in
  two versions) work on the values that \<^verbatim>\<open>JSON.parse\<close> returns. A parsed value is a
  \<open>json\<close>. An object is the list of its own properties in property order, with distinct
  names. A number is kept as the text that \<^verbatim>\<open>Number.prototype.toString\<close> gives for it
  (\<open>''1.5''\<close>, \<open>''-110''\<close>, \<open>''Infinity''\<close>; both zeros are \<open>''0''\<close>): the program never does
  arithmetic on a parsed number, it only tests its truthiness and prints it again.
  A string is the list of its code units, each below 256.
\<close>

datatype json =
    JNull
  | JBool bool
  | JNum string
  | JStr string
  | JArr "json list"
  | JObj "(string \<times> json) list"

text \<open>
  The exceptions of the parser and of the filter; every one of them ends in the
  \<^verbatim>\<open>catch\<close> block.
\<close>

datatype js_error = TypeError | SyntaxError

subsection \<open>Printing numbers and strings\<close>

definition digit_char :: "nat \<Rightarrow> char" where
  "digit_char d = ''0123456789'' ! d"

fun show_nat :: "nat \<Rightarrow> string" where
  "show_nat n = (if n < 10 then [digit_char n] else show_nat (n div 10) @ [digit_char (n mod 10)])"

declare show_nat.simps [simp del]

definition show_int :: "int \<Rightarrow> string" where
  "show_int i = (if i < 0 then CHR ''-'' # show_nat (nat (- i)) else show_nat (nat i))"

definition hex_char :: "nat \<Rightarrow> char" where
  "hex_char d = ''0123456789abcdef'' ! d"

definition HEX_char :: "nat \<Rightarrow> char" where
  "HEX_char d = ''0123456789ABCDEF'' ! d"

fun join :: "string \<Rightarrow> string list \<Rightarrow> string" where
  "join sep [] = []"
| "join sep [x] = x"
| "join sep (x # y # ys) = x @ sep @ join sep (y # ys)"

subsection \<open>\<^verbatim>\<open>JSON.stringify\<close>\<close>

text \<open>
  \<^verbatim>\<open>QuoteJSONString\<close>: the quote, the backslash and the control characters are escaped,
  everything else is copied.
\<close>

definition quote_char :: "char \<Rightarrow> string" where
  "quote_char c =
     (if c = CHR 0x22 then [CHR 0x5C, CHR 0x22]
      else if c = CHR 0x5C then [CHR 0x5C, CHR 0x5C]
      else if c = CHR 0x08 then [CHR 0x5C, CHR ''b'']
      else if c = CHR 0x09 then [CHR 0x5C, CHR ''t'']
      else if c = CHR 0x0A then [CHR 0x5C, CHR ''n'']
      else if c = CHR 0x0C then [CHR 0x5C, CHR ''f'']
      else if c = CHR 0x0D then [CHR 0x5C, CHR ''r'']
      else if of_char c < (32::nat)
        then [CHR 0x5C, CHR ''u'', CHR ''0'', CHR ''0'',
              hex_char (of_char c div 16), hex_char (of_char c mod 16)]
      else [c])"

definition quote :: "string \<Rightarrow> string" where
  "quote s = [CHR 0x22] @ concat (map quote_char s) @ [CHR 0x22]"

text \<open>A number that is not finite is printed as \<^verbatim>\<open>null\<close>.\<close>

definition number_text :: "string \<Rightarrow> string" where
  "number_text n =
     (if n = ''Infinity'' \<or> n = ''-Infinity'' \<or> n = ''NaN'' then ''null'' else n)"

fun JSON_stringify :: "json \<Rightarrow> string" where
  "JSON_stringify JNull = ''null''"
| "JSON_stringify (JBool b) = (if b then ''true'' else ''false'')"
| "JSON_stringify (JNum n) = number_text n"
| "JSON_stringify (JStr s) = quote s"
| "JSON_stringify (JArr xs) = ''['' @ join '','' (map JSON_stringify xs) @ '']''"
| "JSON_stringify (JObj kvs) =
     ''{'' @ join '','' (map (\<lambda>(k, v). quote k @ '':'' @ JSON_stringify v) kvs) @ ''}''"

subsection \<open>Truthiness, property reads, spread\<close>

fun truthy :: "json \<Rightarrow> bool" where
  "truthy JNull = False"
| "truthy (JBool b) = b"
| "truthy (JNum n) = (n \<noteq> ''0'' \<and> n \<noteq> ''NaN'')"
| "truthy (JStr s) = (s \<noteq> [])"
| "truthy (JArr xs) = True"
| "truthy (JObj kvs) = True"

fun isArray :: "json \<Rightarrow> bool" where
  "isArray (JArr xs) = True"
| "isArray j = False"

text \<open>
  \<open>get_prop v k\<close> is the read \<^verbatim>\<open>v.k\<close> for the two names the program reads,
  \<^verbatim>\<open>bookmakers\<close> and \<^verbatim>\<open>title\<close>: a \<^verbatim>\<open>TypeError\<close> on \<^verbatim>\<open>null\<close>, the own property of an
  object, and \<^verbatim>\<open>undefined\<close> (\<open>None\<close>) on every other value, whose prototypes have no
  property of these names.
\<close>

fun get_prop :: "json \<Rightarrow> string \<Rightarrow> js_error + json option" where
  "get_prop JNull k = Inl TypeError"
| "get_prop (JObj kvs) k = Inr (map_of kvs k)"
| "get_prop j k = Inr None"

text \<open>
  The own enumerable properties that \<^verbatim>\<open>{ ...v }\<close> copies: those of an object, the
  indices of an array or of a string, none of any other value.
\<close>

fun own_props :: "json \<Rightarrow> (string \<times> json) list" where
  "own_props (JObj kvs) = kvs"
| "own_props (JArr xs) = map (\<lambda>i. (show_nat i, xs ! i)) [0..<length xs]"
| "own_props (JStr s) = map (\<lambda>i. (show_nat i, JStr [s ! i])) [0..<length s]"
| "own_props j = []"

text \<open>
  Writing a property in an object literal after a spread: an existing property keeps its
  place and takes the new value, a new one goes last.
\<close>

fun set_prop :: "(string \<times> json) list \<Rightarrow> string \<Rightarrow> json \<Rightarrow> (string \<times> json) list" where
  "set_prop [] k v = [(k, v)]"
| "set_prop ((k', v') # kvs) k v =
     (if k' = k then (k, v) # kvs else (k', v') # set_prop kvs k v)"

text \<open>\<^verbatim>\<open>Array.prototype.filter\<close> and \<^verbatim>\<open>map\<close> with a callback that may throw.\<close>

fun js_filter :: "('a \<Rightarrow> js_error + bool) \<Rightarrow> 'a list \<Rightarrow> js_error + 'a list" where
  "js_filter p [] = Inr []"
| "js_filter p (x # xs) =
     (case p x of
        Inl e \<Rightarrow> Inl e
      | Inr b \<Rightarrow>
          (case js_filter p xs of
             Inl e \<Rightarrow> Inl e
           | Inr ys \<Rightarrow> Inr (if b then x # ys else ys)))"

fun js_map :: "('a \<Rightarrow> js_error + 'b) \<Rightarrow> 'a list \<Rightarrow> js_error + 'b list" where
  "js_map f [] = Inr []"
| "js_map f (x # xs) =
     (case f x of
        Inl e \<Rightarrow> Inl e
      | Inr y \<Rightarrow>
          (case js_map f xs of
             Inl e \<Rightarrow> Inl e
           | Inr ys \<Rightarrow> Inr (y # ys)))"

section \<open>The bookmaker filter\<close>

definition NY_BOOK_TITLES :: "string list" where
  "NY_BOOK_TITLES =
     [''DraftKings'', ''FanDuel'', ''BetMGM'', ''Caesars'', ''BetRivers'', ''Resorts World Bet'']"

text \<open>The callback \<^verbatim>\<open>bm => NY_BOOK_TITLES.has(bm.title)\<close>.\<close>

definition is_NY_book :: "json \<Rightarrow> js_error + bool" where
  "is_NY_book bm =
     (case get_prop bm ''title'' of
        Inl e \<Rightarrow> Inl e
      | Inr (Some (JStr t)) \<Rightarrow> Inr (t \<in> set NY_BOOK_TITLES)
      | Inr _ \<Rightarrow> Inr False)"

text \<open>\<^verbatim>\<open>x || []\<close> for a property that was read.\<close>

definition or_empty :: "json option \<Rightarrow> json" where
  "or_empty v = (case v of Some j \<Rightarrow> (if truthy j then j else JArr []) | None \<Rightarrow> JArr [])"

text \<open>
  \<^verbatim>\<open>(evt.bookmakers || []).filter(bm => NY_BOOK_TITLES.has(bm.title))\<close>: only an array has
  a \<^verbatim>\<open>filter\<close> method, on any other truthy value the call throws.
\<close>

definition NY_books :: "json \<Rightarrow> js_error + json list" where
  "NY_books evt =
     (case get_prop evt ''bookmakers'' of
        Inl e \<Rightarrow> Inl e
      | Inr v \<Rightarrow>
          (case or_empty v of
             JArr bms \<Rightarrow> js_filter is_NY_book bms
           | _ \<Rightarrow> Inl TypeError))"

text \<open>The callback of \<^verbatim>\<open>map\<close> in \<^verbatim>\<open>filterToNY\<close>.\<close>

definition to_NY_event :: "json \<Rightarrow> js_error + json" where
  "to_NY_event evt =
     (case NY_books evt of
        Inl e \<Rightarrow> Inl e
      | Inr books \<Rightarrow> Inr (JObj (set_prop (own_props evt) ''bookmakers'' (JArr books))))"

text \<open>
  The callback of the last \<^verbatim>\<open>filter\<close>, \<^verbatim>\<open>evt => (evt.bookmakers || []).length > 0\<close>. It
  is only ever called on the objects that the callback of \<^verbatim>\<open>map\<close> has built, whose
  \<^verbatim>\<open>bookmakers\<close> is an array (\<open>js_filter_has_books\<close> below); the other cases are written
  for a value without a \<^verbatim>\<open>length\<close> of its own, where \<^verbatim>\<open>undefined > 0\<close> is false.
\<close>

definition has_books :: "json \<Rightarrow> js_error + bool" where
  "has_books evt =
     (case get_prop evt ''bookmakers'' of
        Inl e \<Rightarrow> Inl e
      | Inr v \<Rightarrow>
          (case or_empty v of
             JArr bms \<Rightarrow> Inr (length bms > 0)
           | JStr s \<Rightarrow> Inr (length s > 0)
           | _ \<Rightarrow> Inr False))"

definition filterToNY :: "json \<Rightarrow> js_error + json" where
  "filterToNY json =
     (case js_map to_NY_event (case json of JArr evts \<Rightarrow> evts | _ \<Rightarrow> []) of
        Inl e \<Rightarrow> Inl e
      | Inr evts' \<Rightarrow>
          (case js_filter has_books evts' of
             Inl e \<Rightarrow> Inl e
           | Inr kept \<Rightarrow> Inr (JArr kept)))"

text \<open>
  \<^verbatim>\<open>filterEventToNY\<close> of the second version of \<^verbatim>\<open>api/events/[id].js\<close>. When the value
  is truthy the read of \<^verbatim>\<open>bookmakers\<close> cannot throw.
\<close>

definition filterEventToNY :: "json \<Rightarrow> js_error + json" where
  "filterEventToNY evt =
     (if \<not> truthy evt \<or> \<not> (case get_prop evt ''bookmakers'' of
                                 Inr (Some b) \<Rightarrow> isArray b | _ \<Rightarrow> False)
      then Inr (JObj (set_prop (own_props evt) ''bookmakers'' (JArr [])))
      else (case NY_books evt of
              Inl e \<Rightarrow> Inl e
            | Inr books \<Rightarrow> Inr (JObj (set_prop (own_props evt) ''bookmakers'' (JArr books)))))"

section \<open>Numbers: \<^verbatim>\<open>Number(ttl || DEFAULT_TTL) | 0\<close>\<close>

text \<open>
  A Number is a double: not a number, an infinity, or finite, and a finite double is a
  rational. The sign of zero plays no part in the program.
\<close>

datatype jsnumber = NaN | PosInf | NegInf | Fin rat

text \<open>
  Rounding a rational to the nearest double, ties to even: 53 bits of mantissa, the
  exponent of the last bit not below \<open>-1074\<close>, and an infinity from \<open>2 ^ 1024\<close> on.
  \<open>bitlen n\<close> is the number of binary digits of \<open>n\<close>.
\<close>

function bitlen :: "int \<Rightarrow> int" where
  "bitlen n = (if n \<le> 0 then 0 else 1 + bitlen (n div 2))"
  by pat_completeness auto
termination
  by (relation "measure nat") auto

declare bitlen.simps [simp del]

definition pow2 :: "int \<Rightarrow> rat" where
  "pow2 k = (if 0 \<le> k then 2 ^ nat k else 1 / 2 ^ nat (- k))"

definition pow10 :: "int \<Rightarrow> rat" where
  "pow10 k = (if 0 \<le> k then 10 ^ nat k else 1 / 10 ^ nat (- k))"

definition floor_log2 :: "rat \<Rightarrow> int" where
  "floor_log2 a =
     (if 1 \<le> a then bitlen \<lfloor>a\<rfloor> - 1
      else - bitlen (\<lceil>1 / a\<rceil> - 1))"

definition round_half_even :: "rat \<Rightarrow> int" where
  "round_half_even x =
     (let f = \<lfloor>x\<rfloor>; d = x - of_int f
      in if d < 1 / 2 then f else if 1 / 2 < d then f + 1 else if even f then f else f + 1)"

definition to_double :: "rat \<Rightarrow> jsnumber" where
  "to_double x =
     (if x = 0 then Fin 0
      else
        let a = \<bar>x\<bar>;
            e = max (floor_log2 a - 52) (- 1074);
            v = of_int (round_half_even (a / pow2 e)) * pow2 e
        in if pow2 1024 \<le> v then (if 0 < x then PosInf else NegInf)
           else Fin (if 0 < x then v else - v))"

subsection \<open>\<^verbatim>\<open>StringToNumber\<close>\<close>

definition is_ws :: "char \<Rightarrow> bool" where
  "is_ws c = (of_char c \<in> {9, 10, 11, 12, 13, 32, 160 :: nat})"

definition trim :: "string \<Rightarrow> string" where
  "trim s = rev (dropWhile is_ws (rev (dropWhile is_ws s)))"

definition digit_val :: "int \<Rightarrow> char \<Rightarrow> int option" where
  "digit_val b c =
     (let n = of_char c :: int;
          d = (if 48 \<le> n \<and> n \<le> 57 then n - 48
               else if 97 \<le> n \<and> n \<le> 102 then n - 87
               else if 65 \<le> n \<and> n \<le> 70 then n - 55
               else b)
      in if d < b then Some d else None)"

fun digits_val :: "int \<Rightarrow> string \<Rightarrow> int \<Rightarrow> int option" where
  "digits_val b [] acc = Some acc"
| "digits_val b (c # cs) acc =
     (case digit_val b c of None \<Rightarrow> None | Some d \<Rightarrow> digits_val b cs (acc * b + d))"

definition number_in :: "int \<Rightarrow> string \<Rightarrow> int option" where
  "number_in b ds = (if ds = [] then None else digits_val b ds 0)"

text \<open>\<^verbatim>\<open>SignedInteger\<close>, the digits of an exponent.\<close>

definition signed_integer :: "string \<Rightarrow> int option" where
  "signed_integer es =
     (case es of
        [] \<Rightarrow> None
      | c # ds \<Rightarrow>
          if c = CHR ''+'' then number_in 10 ds
          else if c = CHR ''-'' then map_option uminus (number_in 10 ds)
          else number_in 10 es)"

text \<open>
  \<^verbatim>\<open>StrUnsignedDecimalLiteral\<close> other than \<^verbatim>\<open>Infinity\<close>: digits, an optional point and
  more digits (a digit on one side of the point at least), an optional exponent. The
  result is the mathematical value; \<open>to_double\<close> rounds it correctly, as the engines do
  (past 20 significant digits the language would also allow the neighbouring double).
\<close>

definition decimal_literal :: "string \<Rightarrow> rat option" where
  "decimal_literal s =
     (let is_e = (\<lambda>c. c = CHR ''e'' \<or> c = CHR ''E'');
          mant = takeWhile (\<lambda>c. \<not> is_e c) s;
          ex = dropWhile (\<lambda>c. \<not> is_e c) s;
          ip = takeWhile (\<lambda>c. c \<noteq> CHR ''.'') mant;
          fr = drop 1 (dropWhile (\<lambda>c. c \<noteq> CHR ''.'') mant)
      in if ip = [] \<and> fr = [] then None
         else
           (case digits_val 10 (ip @ fr) 0 of
              None \<Rightarrow> None
            | Some m \<Rightarrow>
                (case (if ex = [] then Some 0 else signed_integer (drop 1 ex)) of
                   None \<Rightarrow> None
                 | Some e \<Rightarrow> Some (of_int m * pow10 (e - int (length fr))))))"

definition negate :: "jsnumber \<Rightarrow> jsnumber" where
  "negate x = (case x of NaN \<Rightarrow> NaN | PosInf \<Rightarrow> NegInf | NegInf \<Rightarrow> PosInf | Fin r \<Rightarrow> Fin (- r))"

definition unsigned_literal :: "string \<Rightarrow> jsnumber" where
  "unsigned_literal r =
     (if r = ''Infinity'' then PosInf
      else (case decimal_literal r of None \<Rightarrow> NaN | Some v \<Rightarrow> to_double v))"

text \<open>\<^verbatim>\<open>0x\<close>, \<^verbatim>\<open>0o\<close> and \<^verbatim>\<open>0b\<close> literals take no sign.\<close>

definition radix_of :: "string \<Rightarrow> int option" where
  "radix_of t =
     (case t of
        z # c # ds \<Rightarrow>
          if z \<noteq> CHR ''0'' then None
          else if c = CHR ''x'' \<or> c = CHR ''X'' then Some 16
          else if c = CHR ''o'' \<or> c = CHR ''O'' then Some 8
          else if c = CHR ''b'' \<or> c = CHR ''B'' then Some 2
          else None
      | _ \<Rightarrow> None)"

definition StringToNumber :: "string \<Rightarrow> jsnumber" where
  "StringToNumber s =
     (let t = trim s
      in if t = [] then Fin 0
         else
           (case radix_of t of
              Some b \<Rightarrow>
                (case number_in b (drop 2 t) of None \<Rightarrow> NaN | Some n \<Rightarrow> to_double (of_int n))
            | None \<Rightarrow>
                (case t of
                   [] \<Rightarrow> Fin 0
                 | c # r \<Rightarrow>
                     if c = CHR ''+'' then unsigned_literal r
                     else if c = CHR ''-'' then negate (unsigned_literal r)
                     else unsigned_literal t)))"

subsection \<open>\<^verbatim>\<open>x | 0\<close>, \<^verbatim>\<open>Math.round\<close>\<close>

text \<open>\<^verbatim>\<open>ToInt32\<close>: truncate towards zero, reduce modulo \<open>2 ^ 32\<close>, read as signed.\<close>

definition trunc_zero :: "rat \<Rightarrow> int" where
  "trunc_zero r = (if r < 0 then - \<lfloor>- r\<rfloor> else \<lfloor>r\<rfloor>)"

definition ToInt32 :: "jsnumber \<Rightarrow> int" where
  "ToInt32 x =
     (case x of
        Fin r \<Rightarrow> (let m = trunc_zero r mod 2 ^ 32 in if 2 ^ 31 \<le> m then m - 2 ^ 32 else m)
      | _ \<Rightarrow> 0)"

definition Math_round :: "rat \<Rightarrow> int" where
  "Math_round x = \<lfloor>x + 1 / 2\<rfloor>"

section \<open>Requests, the cache, responses\<close>

text \<open>
  A query parameter is a string, or an array of strings when the name is given more than
  once. \<open>None\<close> is \<^verbatim>\<open>undefined\<close>.
\<close>

datatype qval = QStr string | QArr "string list"

type_synonym query = "(string \<times> qval) list"

record request =
  req_query :: "query option"

fun ToString :: "qval \<Rightarrow> string" where
  "ToString (QStr s) = s"
| "ToString (QArr xs) = join '','' xs"

definition ToString_opt :: "qval option \<Rightarrow> string" where
  "ToString_opt v = (case v of None \<Rightarrow> ''undefined'' | Some q \<Rightarrow> ToString q)"

fun qtruthy :: "qval \<Rightarrow> bool" where
  "qtruthy (QStr s) = (s \<noteq> [])"
| "qtruthy (QArr xs) = True"

fun qjson :: "qval \<Rightarrow> json" where
  "qjson (QStr s) = JStr s"
| "qjson (QArr xs) = JArr (map JStr xs)"

text \<open>\<^verbatim>\<open>Number(v)\<close> of a parameter: an array is joined first.\<close>

definition Number :: "qval \<Rightarrow> jsnumber" where
  "Number v = StringToNumber (ToString v)"

definition DEFAULT_TTL :: int where
  "DEFAULT_TTL = 60"

text \<open>\<^verbatim>\<open>Math.max(10, Number(ttl || DEFAULT_TTL) | 0)\<close>, the same line in every handler.\<close>

definition effective_TTL :: "qval option \<Rightarrow> int" where
  "effective_TTL ttl =
     max 10 (ToInt32 (case ttl of
                        None \<Rightarrow> Fin (of_int DEFAULT_TTL)
                      | Some v \<Rightarrow> if qtruthy v then Number v else Fin (of_int DEFAULT_TTL)))"

definition request_TTL :: "query \<Rightarrow> int" where
  "request_TTL q = effective_TTL (map_of q ''ttl'')"

text \<open>A destructured parameter with its default.\<close>

definition param :: "query \<Rightarrow> string \<Rightarrow> string \<Rightarrow> qval" where
  "param q k d = (case map_of q k of None \<Rightarrow> QStr d | Some v \<Rightarrow> v)"

subsection \<open>The cache key\<close>

text \<open>
  \<^verbatim>\<open>cacheKey(path, query)\<close>, the same function in every file: the copy \<^verbatim>\<open>{ ...query }\<close>
  has the properties of \<open>query\<close> in their order, \<^verbatim>\<open>delete q.apiKey\<close> removes the one of
  that name.
\<close>

definition delete_prop :: "string \<Rightarrow> (string \<times> 'v) list \<Rightarrow> (string \<times> 'v) list" where
  "delete_prop k kvs = filter (\<lambda>(k', v). k' \<noteq> k) kvs"

definition cacheKey :: "string \<Rightarrow> (string \<times> json) list \<Rightarrow> string" where
  "cacheKey path query = path @ ''?'' @ JSON_stringify (JObj (delete_prop ''apiKey'' query))"

subsection \<open>The cache and the response\<close>

record cache_entry =
  ts :: int
  status :: int
  body :: string

type_synonym cache = "string \<rightharpoonup> cache_entry"

record response =
  res_status :: int
  res_headers :: "(string \<times> string) list"
  res_body :: string

definition new_response :: response where
  "new_response = \<lparr>res_status = 200, res_headers = [], res_body = []\<rparr>"

fun set_header :: "(string \<times> string) list \<Rightarrow> string \<Rightarrow> string \<Rightarrow> (string \<times> string) list" where
  "set_header [] k v = [(k, v)]"
| "set_header ((k', v') # hs) k v =
     (if k' = k then (k, v) # hs else (k', v') # set_header hs k v)"

definition setHeader :: "response \<Rightarrow> string \<Rightarrow> string \<Rightarrow> response" where
  "setHeader res k v = res\<lparr>res_headers := set_header (res_headers res) k v\<rparr>"

definition setCachingHeaders :: "response \<Rightarrow> int \<Rightarrow> response" where
  "setCachingHeaders res ttl =
     (let r1 = setHeader res ''Cache-Control''
                 (''s-maxage='' @ show_int ttl @ '', stale-while-revalidate=''
                    @ show_int (Math_round (of_int ttl / 2)));
          r2 = setHeader r1 ''Content-Type'' ''application/json; charset=utf-8''
      in setHeader r2 ''Access-Control-Allow-Origin'' ''*'')"

text \<open>\<^verbatim>\<open>res.status(s).send(b)\<close>.\<close>

definition send :: "response \<Rightarrow> int \<Rightarrow> string \<Rightarrow> response" where
  "send res s b = res\<lparr>res_status := s, res_body := b\<rparr>"

subsection \<open>\<^verbatim>\<open>encodeURIComponent\<close>\<close>

definition uri_unreserved :: "char \<Rightarrow> bool" where
  "uri_unreserved c =
     (let n = of_char c :: nat
      in (48 \<le> n \<and> n \<le> 57) \<or> (65 \<le> n \<and> n \<le> 90) \<or> (97 \<le> n \<and> n \<le> 122)
         \<or> n \<in> {45, 95, 46, 33, 126, 42, 39, 40, 41})"

definition percent :: "nat \<Rightarrow> string" where
  "percent n = [CHR ''%'', HEX_char (n div 16), HEX_char (n mod 16)]"

definition encode_unit :: "char \<Rightarrow> string" where
  "encode_unit c =
     (if uri_unreserved c then [c]
      else if of_char c < (128::nat) then percent (of_char c)
      else percent (192 + of_char c div 64) @ percent (128 + of_char c mod 64))"

definition encodeURIComponent :: "string \<Rightarrow> string" where
  "encodeURIComponent s = concat (map encode_unit s)"

section \<open>The handlers\<close>

text \<open>
  What a handler takes from outside: the credential \<^verbatim>\<open>process.env.ODDS_API_KEY\<close>, the
  upstream API (\<open>None\<close> when \<^verbatim>\<open>fetch\<close> or \<^verbatim>\<open>r.text()\<close> rejects), \<^verbatim>\<open>JSON.parse\<close> (\<open>None\<close>
  when it throws) and the two readings of \<^verbatim>\<open>Date.now()\<close>, at the lookup and at the
  store. A handler returns the response, the cache \<^verbatim>\<open>_mem\<close> after the request and the
  addresses it fetched.
\<close>

record env =
  api_key :: "string option"
  upstream :: "string \<Rightarrow> (int \<times> string) option"
  JSON_parse :: "string \<Rightarrow> json option"
  now_lookup :: int
  now_store :: int

record outcome =
  out_res :: response
  out_mem :: cache
  out_calls :: "string list"

text \<open>The \<^verbatim>\<open>catch\<close> block: the cache is the one the request found.\<close>

definition proxy_error :: "cache \<Rightarrow> string list \<Rightarrow> outcome" where
  "proxy_error mem calls =
     \<lparr>out_res = send (setCachingHeaders new_response 10) 500
                  (JSON_stringify (JObj [(''error'', JStr ''Proxy error'')])),
      out_mem = mem,
      out_calls = calls\<rparr>"

text \<open>
  \<^verbatim>\<open>(Date.now() - hit.ts) / 1000 < TTL\<close>. The times are integer milliseconds and the ttl
  an integer below \<open>2 ^ 31\<close>, so the division in doubles decides as the exact one does.
\<close>

definition is_fresh :: "int \<Rightarrow> cache_entry \<Rightarrow> int \<Rightarrow> bool" where
  "is_fresh now hit TTL = ((of_int (now - ts hit) :: rat) / 1000 < of_int TTL)"

text \<open>
  \<^verbatim>\<open>const hit = _mem.get(key); if (hit && (Date.now() - hit.ts) / 1000 < TTL)\<close>: the
  entry that is served, if there is one.
\<close>

definition fresh_hit :: "env \<Rightarrow> cache \<Rightarrow> int \<Rightarrow> string \<Rightarrow> cache_entry option" where
  "fresh_hit e mem TTL key =
     (case mem key of
        Some hit \<Rightarrow> if is_fresh (now_lookup e) hit TTL then Some hit else None
      | None \<Rightarrow> None)"

text \<open>
  From the lookup to the end of the \<^verbatim>\<open>try\<close> block the three handlers have the same
  lines, but for the address and for what is done to a body of a status in \<open>[200, 300)\<close>;
  \<open>transform\<close> is that step.
\<close>

definition serve ::
  "env \<Rightarrow> cache \<Rightarrow> int \<Rightarrow> string \<Rightarrow> string \<Rightarrow> (string \<Rightarrow> js_error + string) \<Rightarrow> outcome" where
  "serve e mem TTL key url transform =
     (case fresh_hit e mem TTL key of
        Some hit \<Rightarrow>
          \<lparr>out_res = send (setCachingHeaders new_response TTL) (status hit) (body hit),
           out_mem = mem,
           out_calls = []\<rparr>
      | None \<Rightarrow>
          (case upstream e url of
             None \<Rightarrow> proxy_error mem [url]
           | Some (st, txt) \<Rightarrow>
               (case (if 200 \<le> st \<and> st < 300 then transform txt else Inr txt) of
                  Inl err \<Rightarrow> proxy_error mem [url]
                | Inr b \<Rightarrow>
                    \<lparr>out_res = send (setCachingHeaders new_response TTL) st b,
                     out_mem = mem(key \<mapsto> \<lparr>ts = now_store e, status = st, body = b\<rparr>),
                     out_calls = [url]\<rparr>)))"

definition upstream_query :: "env \<Rightarrow> qval \<Rightarrow> qval \<Rightarrow> qval \<Rightarrow> string" where
  "upstream_query e regions markets oddsFormat =
     ''?regions='' @ encodeURIComponent (ToString regions)
     @ ''&markets='' @ encodeURIComponent (ToString markets)
     @ ''&oddsFormat='' @ encodeURIComponent (ToString oddsFormat)
     @ ''&apiKey='' @ encodeURIComponent (case api_key e of None \<Rightarrow> ''undefined'' | Some k \<Rightarrow> k)"

definition key_params :: "qval \<Rightarrow> qval \<Rightarrow> qval \<Rightarrow> qval \<Rightarrow> (string \<times> json) list" where
  "key_params sport regions markets oddsFormat =
     [(''sport'', qjson sport), (''regions'', qjson regions),
      (''markets'', qjson markets), (''oddsFormat'', qjson oddsFormat)]"

subsection \<open>\<^verbatim>\<open>api/odds.js\<close>\<close>

definition odds_transform :: "env \<Rightarrow> string \<Rightarrow> js_error + string" where
  "odds_transform e txt =
     (case JSON_parse e txt of
        None \<Rightarrow> Inl SyntaxError
      | Some data \<Rightarrow>
          (case filterToNY data of
             Inl err \<Rightarrow> Inl err
           | Inr j \<Rightarrow> Inr (JSON_stringify j)))"

definition odds_key :: "query \<Rightarrow> string" where
  "odds_key q =
     cacheKey ''odds''
       (key_params (param q ''sport'' ''americanfootball_nfl'') (param q ''regions'' ''us'')
          (param q ''markets'' ''h2h,spreads,totals'') (param q ''oddsFormat'' ''american''))"

definition odds_url :: "env \<Rightarrow> query \<Rightarrow> string" where
  "odds_url e q =
     ''https://api.the-odds-api.com/v4/sports/''
     @ ToString (param q ''sport'' ''americanfootball_nfl'') @ ''/odds''
     @ upstream_query e (param q ''regions'' ''us'') (param q ''markets'' ''h2h,spreads,totals'')
         (param q ''oddsFormat'' ''american'')"

text \<open>\<^verbatim>\<open>req.query || {}\<close>\<close>

definition query_of :: "request \<Rightarrow> query" where
  "query_of req = (case req_query req of None \<Rightarrow> [] | Some q \<Rightarrow> q)"

definition odds_handler :: "env \<Rightarrow> request \<Rightarrow> cache \<Rightarrow> outcome" where
  "odds_handler e req mem =
     (let q = query_of req
      in serve e mem (request_TTL q) (odds_key q) (odds_url e q) (odds_transform e))"

subsection \<open>\<^verbatim>\<open>api/events/[id].js\<close>\<close>

definition event_markets :: string where
  "event_markets =
     ''player_pass_yds,player_pass_tds,player_rush_yds,player_reception_yds,player_anytime_td''"

definition event_key :: "query \<Rightarrow> string" where
  "event_key q =
     cacheKey (''events/'' @ ToString_opt (map_of q ''id''))
       (key_params (param q ''sport'' ''americanfootball_nfl'') (param q ''regions'' ''us'')
          (param q ''markets'' event_markets) (param q ''oddsFormat'' ''american''))"

definition event_url :: "env \<Rightarrow> query \<Rightarrow> string" where
  "event_url e q =
     ''https://api.the-odds-api.com/v4/sports/''
     @ ToString (param q ''sport'' ''americanfootball_nfl'')
     @ ''/events/'' @ encodeURIComponent (ToString_opt (map_of q ''id'')) @ ''/odds''
     @ upstream_query e (param q ''regions'' ''us'') (param q ''markets'' event_markets)
         (param q ''oddsFormat'' ''american'')"

text \<open>The version that wraps the parsed object in an array and filters nothing.\<close>

definition event_transform :: "env \<Rightarrow> string \<Rightarrow> js_error + string" where
  "event_transform e txt =
     (case JSON_parse e txt of
        None \<Rightarrow> Inl SyntaxError
      | Some data \<Rightarrow> Inr (JSON_stringify (JArr [data])))"

text \<open>
  \<^verbatim>\<open>const { id } = req.query\<close> throws when there is no query object; the \<^verbatim>\<open>catch\<close> block
  answers.
\<close>

definition event_handler :: "env \<Rightarrow> request \<Rightarrow> cache \<Rightarrow> outcome" where
  "event_handler e req mem =
     (case req_query req of
        None \<Rightarrow> proxy_error mem []
      | Some q \<Rightarrow>
          serve e mem (request_TTL q) (event_key q) (event_url e q) (event_transform e))"

text \<open>The version with \<^verbatim>\<open>filterEventToNY\<close>.\<close>

definition event_transform_NY :: "env \<Rightarrow> string \<Rightarrow> js_error + string" where
  "event_transform_NY e txt =
     (case JSON_parse e txt of
        None \<Rightarrow> Inl SyntaxError
      | Some data \<Rightarrow>
          (case filterEventToNY data of
             Inl err \<Rightarrow> Inl err
           | Inr j \<Rightarrow> Inr (JSON_stringify j)))"

definition event_handler_NY :: "env \<Rightarrow> request \<Rightarrow> cache \<Rightarrow> outcome" where
  "event_handler_NY e req mem =
     (case req_query req of
        None \<Rightarrow> proxy_error mem []
      | Some q \<Rightarrow>
          serve e mem (request_TTL q) (event_key q) (event_url e q) (event_transform_NY e))"

section \<open>What the specification says of the transform\<close>

text \<open>
  The specification's data model: an event is an object whose \<^verbatim>\<open>bookmakers\<close>, when it
  has them, are a sequence of bookmaker objects; a bookmaker is allowed when its
  \<^verbatim>\<open>title\<close> is a string of the allow-list.
\<close>

definition allowed_title :: "json \<Rightarrow> bool" where
  "allowed_title bm =
     (case bm of
        JObj kvs \<Rightarrow>
          (case map_of kvs ''title'' of
             Some (JStr t) \<Rightarrow> t \<in> set NY_BOOK_TITLES
           | _ \<Rightarrow> False)
      | _ \<Rightarrow> False)"

definition bookmakers_of :: "json \<Rightarrow> json list" where
  "bookmakers_of evt =
     (case evt of
        JObj kvs \<Rightarrow> (case map_of kvs ''bookmakers'' of Some (JArr bms) \<Rightarrow> bms | _ \<Rightarrow> [])
      | _ \<Rightarrow> [])"

definition is_bookmaker :: "json \<Rightarrow> bool" where
  "is_bookmaker bm = (case bm of JObj kvs \<Rightarrow> True | _ \<Rightarrow> False)"

definition is_event :: "json \<Rightarrow> bool" where
  "is_event evt =
     (case evt of
        JObj kvs \<Rightarrow>
          (case map_of kvs ''bookmakers'' of
             None \<Rightarrow> True
           | Some (JArr bms) \<Rightarrow> list_all is_bookmaker bms
           | Some _ \<Rightarrow> False)
      | _ \<Rightarrow> False)"

text \<open>The event with its bookmakers replaced, every other field as it was.\<close>

definition with_bookmakers :: "json \<Rightarrow> json list \<Rightarrow> json" where
  "with_bookmakers evt bms = JObj (set_prop (own_props evt) ''bookmakers'' (JArr bms))"

definition NY_view :: "json \<Rightarrow> json" where
  "NY_view evt = with_bookmakers evt (filter allowed_title (bookmakers_of evt))"

text \<open>
  The collection endpoint, in the specification's words: filter each event's bookmakers to
  the allow-list, then drop the events whose filtered bookmakers are empty.
\<close>

definition spec_collection :: "json list \<Rightarrow> json list" where
  "spec_collection evts = filter (\<lambda>evt. bookmakers_of evt \<noteq> []) (map NY_view evts)"

text \<open>
  The values on which \<^verbatim>\<open>filterToNY\<close>'s callback does not throw: not \<^verbatim>\<open>null\<close>, the
  \<^verbatim>\<open>bookmakers\<close> falsy, missing or an array, and no \<^verbatim>\<open>null\<close> in that array.
\<close>

definition safe_event :: "json \<Rightarrow> bool" where
  "safe_event evt =
     (case evt of
        JNull \<Rightarrow> False
      | JObj kvs \<Rightarrow>
          (case map_of kvs ''bookmakers'' of
             None \<Rightarrow> True
           | Some (JArr bms) \<Rightarrow> JNull \<notin> set bms
           | Some v \<Rightarrow> \<not> truthy v)
      | _ \<Rightarrow> True)"

section \<open>Words for the statements\<close>

text \<open>The response a handler sends: the three headers for \<open>ttl\<close>, a status and a body.\<close>

definition sent :: "int \<Rightarrow> int \<Rightarrow> string \<Rightarrow> response" where
  "sent ttl st b =
     \<lparr>res_status = st,
      res_headers =
        [(''Cache-Control'',
            ''s-maxage='' @ show_int ttl @ '', stale-while-revalidate='' @ show_int ((ttl + 1) div 2)),
         (''Content-Type'', ''application/json; charset=utf-8''),
         (''Access-Control-Allow-Origin'', ''*'')],
      res_body = b\<rparr>"

definition dquote :: "string \<Rightarrow> string" where
  "dquote s = CHR 0x22 # s @ [CHR 0x22]"

text \<open>The body \<^verbatim>\<open>{"error":"Proxy error"}\<close>.\<close>

definition proxy_error_body :: string where
  "proxy_error_body = ''{'' @ dquote ''error'' @ '':'' @ dquote ''Proxy error'' @ ''}''"

text \<open>
  The three files, and their handlers under one name. \<open>has_query\<close> says that the handler
  gets past its first line; then the key, the address and the transform are these.
\<close>

datatype endpoint = Odds | Event | EventNY

fun handler :: "endpoint \<Rightarrow> env \<Rightarrow> request \<Rightarrow> cache \<Rightarrow> outcome" where
  "handler Odds = odds_handler"
| "handler Event = event_handler"
| "handler EventNY = event_handler_NY"

fun has_query :: "endpoint \<Rightarrow> request \<Rightarrow> bool" where
  "has_query Odds req = True"
| "has_query k req = (req_query req \<noteq> None)"

fun key_of :: "endpoint \<Rightarrow> request \<Rightarrow> string" where
  "key_of Odds req = odds_key (query_of req)"
| "key_of k req = event_key (query_of req)"

fun url_of :: "endpoint \<Rightarrow> env \<Rightarrow> request \<Rightarrow> string" where
  "url_of Odds e req = odds_url e (query_of req)"
| "url_of k e req = event_url e (query_of req)"

fun transform_of :: "endpoint \<Rightarrow> env \<Rightarrow> string \<Rightarrow> js_error + string" where
  "transform_of Odds = odds_transform"
| "transform_of Event = event_transform"
| "transform_of EventNY = event_transform_NY"

text \<open>The request finds no fresh entry under its key.\<close>

definition miss :: "endpoint \<Rightarrow> env \<Rightarrow> request \<Rightarrow> cache \<Rightarrow> bool" where
  "miss k e req mem = (fresh_hit e mem (request_TTL (query_of req)) (key_of k req) = None)"

text \<open>
  The internal faults of a request: no query object to destructure, or, on a miss, a
  transport failure of the upstream call, or an exception (of \<^verbatim>\<open>JSON.parse\<close> or of the
  filter) while a body of a status in \<open>[200, 300)\<close> is transformed.
\<close>

definition fault :: "endpoint \<Rightarrow> env \<Rightarrow> request \<Rightarrow> cache \<Rightarrow> bool" where
  "fault k e req mem =
     (if has_query k req
      then miss k e req mem \<and>
           (case upstream e (url_of k e req) of
              None \<Rightarrow> True
            | Some (st, txt) \<Rightarrow> 200 \<le> st \<and> st < 300 \<and> isl (transform_of k e txt))
      else True)"

text \<open>An environment for the examples: one upstream answer, one parse result, two times.\<close>

definition ex_env :: "(int \<times> string) option \<Rightarrow> json option \<Rightarrow> int \<Rightarrow> int \<Rightarrow> env" where
  "ex_env up parsed t1 t2 =
     \<lparr>api_key = Some ''secret'', upstream = (\<lambda>url. up), JSON_parse = (\<lambda>txt. parsed),
      now_lookup = t1, now_store = t2\<rparr>"

definition ex_req :: "query \<Rightarrow> request" where
  "ex_req q = \<lparr>req_query = Some q\<rparr>"

text \<open>
  Two property lists have the same names in the same order, and the same properties but
  for the one named \<open>k\<close>.
\<close>

definition same_fields_but :: "string \<Rightarrow> (string \<times> json) list \<Rightarrow> (string \<times> json) list \<Rightarrow> bool" where
  "same_fields_but k kvs kvs' = (map fst kvs' = map fst kvs \<and> delete_prop k kvs' = delete_prop k kvs)"

text \<open>Three events for the examples: one with an allowed bookmaker, two without.\<close>

definition ex_events :: "json list" where
  "ex_events =
     [JObj [(''id'', JStr ''e1''),
            (''bookmakers'', JArr [JObj [(''title'', JStr ''Bovada'')],
                                   JObj [(''title'', JStr ''FanDuel''), (''key'', JStr ''fd'')]]),
            (''home_team'', JStr ''Jets'')],
      JObj [(''id'', JStr ''e2''), (''bookmakers'', JArr [JObj [(''title'', JStr ''Bovada'')]])],
      JObj [(''id'', JStr ''e3'')]]"

text \<open>A single event whose only bookmaker is not in the allow-list.\<close>

definition ex_bovada_event :: json where
  "ex_bovada_event =
     JObj [(''id'', JStr ''e1''), (''bookmakers'', JArr [JObj [(''title'', JStr ''Bovada'')]])]"

section \<open>The transform, as a function\<close>

lemma is_NY_book_eq: "is_NY_book bm = (if bm = JNull then Inl TypeError else Inr (allowed_title bm))"
  by (cases bm) (auto simp: is_NY_book_def allowed_title_def split: option.splits json.splits)

lemma js_filter_total:
  "(\<And>x. x \<in> set xs \<Longrightarrow> p x = Inr (P x)) \<Longrightarrow> js_filter p xs = Inr (filter P xs)"
  by (induction xs) auto

lemma filter_NY_books:
  "js_filter is_NY_book bms = (if JNull \<in> set bms then Inl TypeError else Inr (filter allowed_title bms))"
  by (induction bms) (auto simp: is_NY_book_eq)

lemma NY_books_eq:
  "NY_books evt =
     (if safe_event evt then Inr (filter allowed_title (bookmakers_of evt)) else Inl TypeError)"
  by (cases evt)
     (auto simp: NY_books_def safe_event_def bookmakers_of_def or_empty_def filter_NY_books
           split: option.splits json.splits)

lemma to_NY_event_eq:
  "to_NY_event evt = (if safe_event evt then Inr (NY_view evt) else Inl TypeError)"
  by (simp add: to_NY_event_def NY_books_eq NY_view_def with_bookmakers_def)

lemma js_map_to_NY_event:
  "js_map to_NY_event evts =
     (if list_all safe_event evts then Inr (map NY_view evts) else Inl TypeError)"
  by (induction evts) (auto simp: to_NY_event_eq)

lemma map_of_set_prop_same: "map_of (set_prop kvs k v) k = Some v"
  by (induction kvs k v rule: set_prop.induct) auto

lemma map_of_set_prop_other: "k' \<noteq> k \<Longrightarrow> map_of (set_prop kvs k v) k' = map_of kvs k'"
  by (induction kvs k v rule: set_prop.induct) auto

lemma bookmakers_of_with: "bookmakers_of (with_bookmakers evt bms) = bms"
  by (simp add: bookmakers_of_def with_bookmakers_def map_of_set_prop_same)

lemma has_books_with: "has_books (with_bookmakers evt bms) = Inr (bms \<noteq> [])"
  by (simp add: has_books_def with_bookmakers_def map_of_set_prop_same or_empty_def)

lemma has_books_NY_view: "has_books (NY_view evt) = Inr (bookmakers_of (NY_view evt) \<noteq> [])"
  by (simp add: NY_view_def has_books_with bookmakers_of_with)

lemma js_filter_has_books:
  "js_filter has_books (map NY_view evts) =
     Inr (filter (\<lambda>evt. bookmakers_of evt \<noteq> []) (map NY_view evts))"
  by (rule js_filter_total) (auto simp: has_books_NY_view)

lemma filterToNY_array:
  "filterToNY (JArr evts) =
     (if list_all safe_event evts then Inr (JArr (spec_collection evts)) else Inl TypeError)"
  by (simp add: filterToNY_def js_map_to_NY_event js_filter_has_books spec_collection_def)

lemma filterToNY_not_array: "\<not> isArray j \<Longrightarrow> filterToNY j = Inr (JArr [])"
  by (cases j) (auto simp: filterToNY_def)

lemma is_event_safe: "is_event evt \<Longrightarrow> safe_event evt"
  by (auto simp: is_event_def safe_event_def is_bookmaker_def list_all_iff split: json.splits option.splits)


subsection \<open>The headers and the error response\<close>

lemma Math_round_half: "Math_round (of_int n / 2) = (n + 1) div 2"
proof -
  have "(of_int n / 2 + 1 / 2 :: rat) = of_int (n + 1) / of_int 2" by simp
  then have "Math_round (of_int n / 2) = \<lfloor>(of_int (n + 1) :: rat) / of_int 2\<rfloor>"
    by (simp only: Math_round_def)
  then show ?thesis by (simp only: floor_divide_of_int_eq)
qed

lemma send_headers: "send (setCachingHeaders new_response ttl) st b = sent ttl st b"
  by (simp add: send_def setCachingHeaders_def setHeader_def new_response_def sent_def
        Math_round_half Let_def)

lemma proxy_error_body_eq:
  "JSON_stringify (JObj [(''error'', JStr ''Proxy error'')]) = proxy_error_body"
  by (simp add: proxy_error_body_def dquote_def quote_def quote_char_def)

lemma proxy_error_eq:
  "proxy_error mem calls = \<lparr>out_res = sent 10 500 proxy_error_body, out_mem = mem, out_calls = calls\<rparr>"
  by (simp only: proxy_error_def send_headers proxy_error_body_eq)

subsection \<open>The three ways out of \<open>serve\<close>\<close>

lemma serve_hit:
  "fresh_hit e mem TTL key = Some hit \<Longrightarrow>
   serve e mem TTL key url tr =
     \<lparr>out_res = sent TTL (status hit) (body hit), out_mem = mem, out_calls = []\<rparr>"
  by (simp add: serve_def send_headers)

lemma serve_stored:
  "fresh_hit e mem TTL key = None \<Longrightarrow> upstream e url = Some (st, txt) \<Longrightarrow>
   (if 200 \<le> st \<and> st < 300 then tr txt else Inr txt) = Inr b \<Longrightarrow>
   serve e mem TTL key url tr =
     \<lparr>out_res = sent TTL st b,
      out_mem = mem(key \<mapsto> \<lparr>ts = now_store e, status = st, body = b\<rparr>),
      out_calls = [url]\<rparr>"
  by (simp add: serve_def send_headers)

lemma serve_transport_fault:
  "fresh_hit e mem TTL key = None \<Longrightarrow> upstream e url = None \<Longrightarrow>
   serve e mem TTL key url tr = proxy_error mem [url]"
  by (simp add: serve_def)

lemma serve_transform_fault:
  "fresh_hit e mem TTL key = None \<Longrightarrow> upstream e url = Some (st, txt) \<Longrightarrow>
   200 \<le> st \<Longrightarrow> st < 300 \<Longrightarrow> tr txt = Inl err \<Longrightarrow>
   serve e mem TTL key url tr = proxy_error mem [url]"
  by (simp add: serve_def)

subsection \<open>The collection transform on arrays\<close>

lemma spec_collection_eq:
  "spec_collection evts =
     map NY_view (filter (\<lambda>evt. filter allowed_title (bookmakers_of evt) \<noteq> []) evts)"
  by (induction evts) (auto simp: spec_collection_def NY_view_def bookmakers_of_with)

lemma bookmakers_of_NY_view:
  "bookmakers_of (NY_view evt) = filter allowed_title (bookmakers_of evt)"
  by (simp add: NY_view_def bookmakers_of_with)

lemma spec_collection_allowed:
  "out \<in> set (spec_collection evts) \<Longrightarrow>
   bookmakers_of out \<noteq> [] \<and> list_all allowed_title (bookmakers_of out)"
  by (auto simp: spec_collection_def bookmakers_of_NY_view list_all_iff)

lemma odds_transform_array:
  "JSON_parse e txt = Some (JArr evts) \<Longrightarrow> list_all safe_event evts \<Longrightarrow>
   odds_transform e txt = Inr (JSON_stringify (JArr (spec_collection evts)))"
  by (simp add: odds_transform_def filterToNY_array del: JSON_stringify.simps)

lemma odds_handler_stored:
  assumes "miss Odds e req mem"
    and "upstream e (odds_url e (query_of req)) = Some (st, txt)"
    and "(if 200 \<le> st \<and> st < 300 then odds_transform e txt else Inr txt) = Inr b"
  shows "odds_handler e req mem =
      \<lparr>out_res = sent (request_TTL (query_of req)) st b,
       out_mem = mem(odds_key (query_of req) \<mapsto> \<lparr>ts = now_store e, status = st, body = b\<rparr>),
       out_calls = [odds_url e (query_of req)]\<rparr>"
  unfolding odds_handler_def Let_def
  using assms by (intro serve_stored) (simp_all add: miss_def)

lemma ex_events_are_events: "list_all is_event ex_events"
  by (simp add: ex_events_def is_event_def is_bookmaker_def)

lemma NY_BOOK_TITLES_mem:
  "''FanDuel'' \<in> set NY_BOOK_TITLES" "''Bovada'' \<notin> set NY_BOOK_TITLES"
  by (simp_all add: NY_BOOK_TITLES_def)

lemma ex_events_collection:
  "spec_collection ex_events =
     [JObj [(''id'', JStr ''e1''),
            (''bookmakers'', JArr [JObj [(''title'', JStr ''FanDuel''), (''key'', JStr ''fd'')]]),
            (''home_team'', JStr ''Jets'')]]"
  by (simp add: spec_collection_def ex_events_def NY_view_def with_bookmakers_def
        bookmakers_of_def allowed_title_def NY_BOOK_TITLES_mem)

lemma default_TTL: "request_TTL [] = 60"
  by (simp add: request_TTL_def effective_TTL_def DEFAULT_TTL_def ToInt32_def trunc_zero_def Let_def)

lemma map_fst_set_prop: "map_of kvs k = Some w \<Longrightarrow> map fst (set_prop kvs k v) = map fst kvs"
  by (induction kvs k v rule: set_prop.induct) (auto split: if_splits)

lemma delete_set_prop: "delete_prop k (set_prop kvs k v) = delete_prop k kvs"
  by (induction kvs k v rule: set_prop.induct) (auto simp: delete_prop_def)

lemma bookmakers_of_nonempty:
  "bookmakers_of evt \<noteq> [] \<Longrightarrow>
   \<exists>kvs. evt = JObj kvs \<and> map_of kvs ''bookmakers'' = Some (JArr (bookmakers_of evt))"
  by (auto simp: bookmakers_of_def split: json.splits option.splits)

lemma NY_view_object:
  "NY_view (JObj kvs) =
     JObj (set_prop kvs ''bookmakers'' (JArr (filter allowed_title (bookmakers_of (JObj kvs)))))"
  by (simp add: NY_view_def with_bookmakers_def)

subsection \<open>The handlers through \<open>serve\<close>\<close>

lemma handler_serve:
  "has_query k req \<Longrightarrow>
   handler k e req mem =
     serve e mem (request_TTL (query_of req)) (key_of k req) (url_of k e req) (transform_of k e)"
  by (cases k)
     (auto simp: odds_handler_def event_handler_def event_handler_NY_def query_of_def Let_def
           split: option.splits)

lemma handler_no_query:
  "\<not> has_query k req \<Longrightarrow> handler k e req mem = proxy_error mem []"
  by (cases k) (auto simp: event_handler_def event_handler_NY_def)

lemma parse_failure_is_fault: "JSON_parse e txt = None \<Longrightarrow> isl (transform_of k e txt)"
  by (cases k) (simp_all add: odds_transform_def event_transform_def event_transform_NY_def)

lemma handler_fault:
  assumes "fault k e req mem"
  shows "\<exists>calls. handler k e req mem = proxy_error mem calls"
proof (cases "has_query k req")
  case False
  then show ?thesis using handler_no_query by blast
next
  case True
  with assms have m: "fresh_hit e mem (request_TTL (query_of req)) (key_of k req) = None"
    and u: "case upstream e (url_of k e req) of
              None \<Rightarrow> True
            | Some (st, txt) \<Rightarrow> 200 \<le> st \<and> st < 300 \<and> isl (transform_of k e txt)"
    by (simp_all add: fault_def miss_def)
  show ?thesis
  proof (cases "upstream e (url_of k e req)")
    case None
    with m True have "handler k e req mem = proxy_error mem [url_of k e req]"
      by (simp add: handler_serve serve_transport_fault)
    then show ?thesis by blast
  next
    case (Some r)
    obtain st tx where r: "r = (st, tx)" by (cases r)
    with u Some have s: "200 \<le> st" "st < 300" and "isl (transform_of k e tx)" by simp_all
    then obtain err where "transform_of k e tx = Inl err"
      by (cases "transform_of k e tx") simp_all
    with m Some r s True have "handler k e req mem = proxy_error mem [url_of k e req]"
      by (simp add: handler_serve serve_transform_fault)
    then show ?thesis by blast
  qed
qed

lemma ex_env_simps:
  "upstream (ex_env up p a b) url = up" "JSON_parse (ex_env up p a b) txt = p"
  "now_lookup (ex_env up p a b) = a" "now_store (ex_env up p a b) = b"
  by (simp_all add: ex_env_def)

lemma ex_req_has_query: "has_query k (ex_req q)"
  by (cases k) (simp_all add: ex_req_def)

lemma miss_empty: "miss k e req Map.empty"
  by (simp add: miss_def fresh_hit_def)

lemma default_TTL_req: "request_TTL (query_of (ex_req [])) = 60"
  by (simp add: query_of_def ex_req_def default_TTL)

lemma handler_stored:
  assumes "has_query k req" and "miss k e req mem"
    and "upstream e (url_of k e req) = Some (st, txt)"
    and "(if 200 \<le> st \<and> st < 300 then transform_of k e txt else Inr txt) = Inr b"
  shows "handler k e req mem =
      \<lparr>out_res = sent (request_TTL (query_of req)) st b,
       out_mem = mem(key_of k req \<mapsto> \<lparr>ts = now_store e, status = st, body = b\<rparr>),
       out_calls = [url_of k e req]\<rparr>"
  using assms by (simp add: handler_serve miss_def serve_stored)

lemma handler_hit:
  assumes "has_query k req"
    and "fresh_hit e mem (request_TTL (query_of req)) (key_of k req) = Some hit"
  shows "handler k e req mem =
      \<lparr>out_res = sent (request_TTL (query_of req)) (status hit) (body hit),
       out_mem = mem, out_calls = []\<rparr>"
  using assms by (simp add: handler_serve serve_hit)

lemma serve_calls_miss:
  "fresh_hit e mem TTL key = None \<Longrightarrow> out_calls (serve e mem TTL key url tr) = [url]"
  by (simp add: serve_def proxy_error_def split: option.splits sum.splits prod.splits)

lemma sent_error_headers:
  "res_headers (sent 10 500 b) =
     [(''Cache-Control'', ''s-maxage=10, stale-while-revalidate=5''),
      (''Content-Type'', ''application/json; charset=utf-8''),
      (''Access-Control-Allow-Origin'', ''*'')]"
  by (simp add: sent_def show_int_def show_nat.simps digit_char_def)

subsection \<open>The single event\<close>

lemma filterEventToNY_eq:
  "filterEventToNY data =
     (if JNull \<in> set (bookmakers_of data) then Inl TypeError else Inr (NY_view data))"
proof (cases "bookmakers_of data = []")
  case True
  then have "filterEventToNY data = Inr (with_bookmakers data [])"
    by (cases data)
       (auto simp: filterEventToNY_def bookmakers_of_def with_bookmakers_def NY_books_eq
          safe_event_def split: option.splits json.splits)
  with True show ?thesis by (simp add: NY_view_def)
next
  case False
  then obtain kvs where d: "data = JObj kvs"
    and b: "map_of kvs ''bookmakers'' = Some (JArr (bookmakers_of data))"
    using bookmakers_of_nonempty by blast
  then have "safe_event data = (JNull \<notin> set (bookmakers_of data))"
    by (simp add: safe_event_def)
  with d b show ?thesis
    by (simp add: filterEventToNY_def NY_books_eq NY_view_def with_bookmakers_def)
qed

lemma Bovada_not_allowed: "\<not> allowed_title (JObj [(''title'', JStr ''Bovada'')])"
  by (simp add: allowed_title_def NY_BOOK_TITLES_def)

lemma NY_view_bovada:
  "NY_view ex_bovada_event = JObj [(''id'', JStr ''e1''), (''bookmakers'', JArr [])]"
  by (simp add: NY_view_def with_bookmakers_def bookmakers_of_def ex_bovada_event_def
        Bovada_not_allowed)

subsection \<open>The cache key\<close>

lemma delete_prop_idem: "delete_prop k (delete_prop k kvs) = delete_prop k kvs"
  by (simp add: delete_prop_def)

lemma delete_prop_entry: "delete_prop k (xs @ (k, v) # ys) = delete_prop k (xs @ ys)"
  by (simp add: delete_prop_def)

lemma cacheKey_deleted: "cacheKey path q = cacheKey path (delete_prop ''apiKey'' q)"
  by (simp only: cacheKey_def delete_prop_idem)

lemma map_of_other_entry:
  "k' \<noteq> k \<Longrightarrow> map_of (xs @ (k, v) # ys) k' = map_of (xs @ ys) k'"
  by (induction xs) auto

lemma param_other_entry:
  "k' \<noteq> k \<Longrightarrow> param (xs @ (k, v) # ys) k' d = param (xs @ ys) k' d"
  by (simp add: param_def map_of_other_entry del: map_of_append)

lemma serve_writes_own_key:
  "dom (out_mem (serve e mem TTL key url tr)) \<subseteq> insert key (dom mem)"
proof (cases "fresh_hit e mem TTL key")
  case (Some hit)
  then show ?thesis by (auto simp: serve_def)
next
  case None
  show ?thesis
  proof (cases "upstream e url")
    case n: None
    with None show ?thesis by (auto simp: serve_def proxy_error_def)
  next
    case (Some r)
    obtain st tx where r: "r = (st, tx)" by (cases r)
    show ?thesis
      using None Some r
      by (cases "if 200 \<le> st \<and> st < 300 then tr tx else Inr tx")
         (auto simp: serve_def proxy_error_def)
  qed
qed

lemma handler_writes_own_key:
  "dom (out_mem (handler k e req mem)) \<subseteq> insert (key_of k req) (dom mem)"
proof (cases "has_query k req")
  case True
  then show ?thesis by (simp only: handler_serve serve_writes_own_key)
next
  case False
  then show ?thesis by (auto simp: handler_no_query proxy_error_def)
qed

lemma key_of_ignores_apiKey:
  "key_of k \<lparr>req_query = Some (xs @ (''apiKey'', v) # ys)\<rparr> = key_of k \<lparr>req_query = Some (xs @ ys)\<rparr>"
  by (cases k)
     (simp_all add: odds_key_def event_key_def query_of_def param_other_entry map_of_other_entry
        del: map_of_append)

subsection \<open>Evaluating \<open>Number\<close>\<close>

lemma bitlen_nonpos: "n \<le> 0 \<Longrightarrow> bitlen n = 0"
  by (simp add: bitlen.simps)

lemma bitlen_pos: "0 < n \<Longrightarrow> bitlen n = 1 + bitlen (n div 2)"
  by (subst bitlen.simps) simp

lemma floor_rat_numeral: "\<lfloor>(numeral a :: rat) / numeral b\<rfloor> = numeral a div numeral b"
  using floor_divide_of_int_eq [of "numeral a" "numeral b", where ?'a = rat] by simp

lemma ceiling_rat_numeral: "\<lceil>(numeral a :: rat) / numeral b\<rceil> = - (- numeral a div numeral b)"
  using floor_divide_of_int_eq [of "- numeral a" "numeral b", where ?'a = rat]
  by (simp add: ceiling_def)

lemmas to_double_eval = to_double_def floor_log2_def bitlen_pos bitlen_nonpos round_half_even_def
  pow2_def Let_def floor_rat_numeral ceiling_rat_numeral

lemmas parse_eval = Number_def StringToNumber_def trim_def is_ws_def radix_of_def
  unsigned_literal_def decimal_literal_def digit_val_def number_in_def signed_integer_def
  pow10_def negate_def

lemma Number_examples:
  "Number (QStr ''5'') = Fin 5"
  "Number (QStr ''120'') = Fin 120"
  "Number (QStr ''abc'') = NaN"
  "Number (QStr ''-5'') = Fin (- 5)"
  "Number (QStr ''12.9'') = Fin (7262054399134925 / 562949953421312)"
  "Number (QStr ''2147483648'') = Fin 2147483648"
  "Number (QStr ''4294967416'') = Fin 4294967416"
  by (simp_all add: parse_eval to_double_eval)

lemma Number_below_int32: "Number (QStr ''-2147483649'') = Fin (- 2147483649)"
  by (simp add: parse_eval to_double_eval)

subsection \<open>The effective ttl\<close>

lemma trunc_zero_nonneg: "0 \<le> r \<Longrightarrow> trunc_zero r = \<lfloor>r\<rfloor>"
  by (simp add: trunc_zero_def)


lemma ToInt32_wrap: "ToInt32 (Fin r) = (trunc_zero r + 2 ^ 31) mod 2 ^ 32 - 2 ^ 31"
proof -
  define m where "m = trunc_zero r mod 4294967296"
  have m: "0 \<le> m" "m < 4294967296" by (simp_all add: m_def)
  have s: "(trunc_zero r + 2147483648) mod 4294967296 = (m + 2147483648) mod 4294967296"
    unfolding m_def by (simp add: mod_add_left_eq)
  show ?thesis
  proof (cases "2147483648 \<le> m")
    case True
    have "m + 2147483648 = m - 2147483648 + 4294967296"
      by simp
    then have "(m + 2147483648) mod 4294967296 = (m - 2147483648 + 4294967296) mod 4294967296"
      by (rule arg_cong)
    also have "\<dots> = (m - 2147483648) mod 4294967296"
      by (simp only: mod_add_self2)
    also have "\<dots> = m - 2147483648"
      using True m by simp
    finally show ?thesis
      using True s by (simp add: ToInt32_def Let_def m_def [symmetric])
  next
    case False
    then have "(m + 2147483648) mod 4294967296 = m + 2147483648"
      using m by simp
    then show ?thesis
      using False s by (simp add: ToInt32_def Let_def m_def [symmetric])
  qed
qed

lemma ToInt32_range: "- (2 ^ 31) \<le> ToInt32 x \<and> ToInt32 x < 2 ^ 31"
  by (cases x) (auto simp: ToInt32_def Let_def)

lemma ToInt32_small:
  assumes "- (2 ^ 31) \<le> trunc_zero r" and "trunc_zero r < 2 ^ 31"
  shows "ToInt32 (Fin r) = trunc_zero r"
  using assms by (simp add: ToInt32_wrap)

lemma effective_TTL_truthy:
  "qtruthy v \<Longrightarrow> effective_TTL (Some v) = max 10 (ToInt32 (Number v))"
  by (simp add: effective_TTL_def)

lemma effective_TTL_absent: "effective_TTL None = 60" "effective_TTL (Some (QStr [])) = 60"
  by (simp_all add: effective_TTL_def DEFAULT_TTL_def ToInt32_def trunc_zero_def Let_def)

lemma effective_TTL_floor: "10 \<le> effective_TTL ttl"
  by (simp add: effective_TTL_def)

lemma effective_TTL_in_range:
  assumes "qtruthy v" and "Number v = Fin r" and "10 \<le> r" and "r < 2 ^ 31"
  shows "effective_TTL (Some v) = \<lfloor>r\<rfloor>"
proof -
  have f: "\<lfloor>r\<rfloor> < 2 ^ 31" "10 \<le> \<lfloor>r\<rfloor>"
    using assms(3,4) by (simp_all add: floor_less_iff le_floor_iff)
  then have "ToInt32 (Fin r) = \<lfloor>r\<rfloor>"
    using assms(3) by (subst ToInt32_small) (simp_all add: trunc_zero_nonneg)
  with f assms(1,2) show ?thesis
    by (simp add: effective_TTL_truthy)
qed

lemma effective_TTL_below:
  assumes "qtruthy v" and "Number v = Fin r" and "- (2 ^ 31) - 1 < r" and "r < 10"
  shows "effective_TTL (Some v) = 10"
proof -
  have "trunc_zero r < 10"
  proof (cases "r < 0")
    case True
    then have "0 \<le> - r" by simp
    then have "0 \<le> \<lfloor>- r\<rfloor>" by (simp only: zero_le_floor)
    then have "- \<lfloor>- r\<rfloor> < 10" by linarith
    with True show ?thesis by (simp only: trunc_zero_def if_True)
  next
    case False
    with assms(4) show ?thesis by (simp add: trunc_zero_def floor_less_iff)
  qed
  moreover have "- (2 ^ 31) \<le> trunc_zero r"
  proof (cases "r < 0")
    case True
    from assms(3) have "- r < 2 ^ 31 + 1" by simp
    then have "\<lfloor>- r\<rfloor> < 2 ^ 31 + 1" by (simp add: floor_less_iff)
    with True show ?thesis by (simp add: trunc_zero_def)
  next
    case False
    then show ?thesis by (simp add: trunc_zero_def)
  qed
  ultimately have "ToInt32 (Fin r) = trunc_zero r" "trunc_zero r < 10"
    by (simp_all add: ToInt32_small)
  with assms(1,2) show ?thesis
    by (simp add: effective_TTL_truthy)
qed

lemma effective_TTL_NaN: "qtruthy v \<Longrightarrow> Number v = NaN \<Longrightarrow> effective_TTL (Some v) = 10"
  by (simp add: effective_TTL_truthy ToInt32_def)


subsection \<open>Integers below \<open>2 ^ 53\<close> are doubles\<close>

lemma bitlen_ge1: "0 < n \<Longrightarrow> 1 \<le> bitlen n"
proof -
  assume "0 < n"
  then have "bitlen n = 1 + bitlen (n div 2)" by (rule bitlen_pos)
  moreover have "0 \<le> bitlen m" for m
    by (induction m rule: bitlen.induct) (subst bitlen.simps, simp)
  ultimately show ?thesis by (simp add: add_increasing2)
qed

lemma bitlen_le: "n < 2 ^ k \<Longrightarrow> bitlen n \<le> int k"
proof (induction k arbitrary: n)
  case 0
  then have "n \<le> 0" by simp
  then show ?case by (simp add: bitlen_nonpos)
next
  case (Suc k)
  show ?case
  proof (cases "0 < n")
    case True
    from Suc.prems have "n div 2 < 2 ^ k" by simp
    then have "bitlen (n div 2) \<le> int k" by (rule Suc.IH)
    with True show ?thesis by (simp add: bitlen_pos)
  next
    case False
    then show ?thesis by (simp add: bitlen_nonpos)
  qed
qed

lemma round_half_even_int: "round_half_even (of_int z) = z"
  by (simp add: round_half_even_def Let_def)

lemma to_double_int:
  assumes "0 < n" and "n < 2 ^ 53"
  shows "to_double (of_int n) = Fin (of_int n)"
proof -
  have b: "1 \<le> bitlen n" "bitlen n \<le> 53"
    using assms bitlen_ge1 [of n] bitlen_le [of n 53] by simp_all
  define j where "j = nat (53 - bitlen n)"
  have e: "max (floor_log2 (of_int n) - 52) (- 1074) = - int j"
    using assms(1) b by (simp add: floor_log2_def j_def)
  have p: "pow2 (- int j) = 1 / 2 ^ j"
    by (cases "j = 0") (simp_all add: pow2_def)
  have s: "(of_int n :: rat) / pow2 (- int j) = of_int (n * 2 ^ j)"
    by (simp add: p)
  have r: "round_half_even ((of_int n :: rat) / pow2 (- int j)) = n * 2 ^ j"
    by (simp only: s round_half_even_int)
  have v: "(of_int (n * 2 ^ j) :: rat) * pow2 (- int j) = of_int n"
    by (simp add: p)
  have "(of_int n :: rat) < of_int (2 ^ 53)"
    using assms(2) by (simp only: of_int_less_iff)
  also have "(of_int (2 ^ 53) :: rat) \<le> 2 ^ 1024" by simp
  finally have o: "\<not> pow2 1024 \<le> (of_int n :: rat)"
    by (simp add: pow2_def)
  have a: "\<bar>of_int n :: rat\<bar> = of_int n" "(of_int n :: rat) \<noteq> 0" "(0 :: rat) < of_int n"
    using assms(1) by simp_all
  show ?thesis
    unfolding to_double_def Let_def a e r v using o a by simp
qed

subsection \<open>Reading a printed number\<close>

lemma digit_cases: "d < 10 \<Longrightarrow> d \<in> {0, 1, 2, 3, 4, 5, 6, 7, 8, 9 :: nat}"
  by auto

lemma digit_val_digit_char: "d < 10 \<Longrightarrow> digit_val 10 (digit_char d) = Some (int d)"
  by (drule digit_cases) (auto simp: digit_val_def digit_char_def)

lemma digit_char_plain:
  "d < 10 \<Longrightarrow>
   \<not> is_ws (digit_char d) \<and> digit_char d \<noteq> CHR ''e'' \<and> digit_char d \<noteq> CHR ''E'' \<and>
   digit_char d \<noteq> CHR ''.'' \<and> digit_char d \<noteq> CHR ''+'' \<and> digit_char d \<noteq> CHR ''-'' \<and>
   digit_char d \<noteq> CHR ''I'' \<and> digit_char d \<notin> set ''xXoObB''"
  by (drule digit_cases) (auto simp: is_ws_def digit_char_def)

lemma digits_val_append:
  "digits_val b (xs @ ys) acc =
     (case digits_val b xs acc of None \<Rightarrow> None | Some a \<Rightarrow> digits_val b ys a)"
  by (induction xs arbitrary: acc) (auto split: option.splits)

lemma digits_val_show_nat: "digits_val 10 (show_nat n) 0 = Some (int n)"
proof (induction n rule: show_nat.induct)
  case (1 n)
  show ?case
  proof (cases "n < 10")
    case True
    then show ?thesis
      by (subst show_nat.simps) (simp add: digit_val_digit_char)
  next
    case False
    then have "digits_val 10 (show_nat (n div 10)) 0 = Some (int (n div 10))"
      by (rule "1.IH")
    moreover have "int (n div 10) * 10 + int (n mod 10) = int n"
      by (simp add: zdiv_int zmod_int)
    ultimately show ?thesis
      using False
      by (subst show_nat.simps) (simp add: digits_val_append digit_val_digit_char)
  qed
qed

lemma show_nat_digits: "c \<in> set (show_nat n) \<Longrightarrow> \<exists>d < 10. c = digit_char d"
proof (induction n rule: show_nat.induct)
  case (1 n)
  show ?case
  proof (cases "n < 10")
    case True
    with "1.prems" show ?thesis
      by (subst (asm) show_nat.simps) auto
  next
    case False
    with "1.prems" have "c \<in> set (show_nat (n div 10)) \<or> c = digit_char (n mod 10)"
      by (subst (asm) show_nat.simps) auto
    then show ?thesis
    proof
      assume "c \<in> set (show_nat (n div 10))"
      with False "1.IH" show ?thesis by blast
    next
      assume "c = digit_char (n mod 10)"
      then show ?thesis by (intro exI [of _ "n mod 10"]) simp
    qed
  qed
qed

lemma show_nat_nonempty: "show_nat n \<noteq> []"
  by (subst show_nat.simps) simp

lemma trim_plain:
  assumes "\<forall>c \<in> set s. \<not> is_ws c"
  shows "trim s = s"
proof -
  have "dropWhile is_ws s = s"
    using assms by (cases s) simp_all
  moreover have "dropWhile is_ws (rev s) = rev s"
  proof (cases "rev s")
    case Nil
    then show ?thesis by simp
  next
    case (Cons x xs)
    then have "x \<in> set (rev s)" by simp
    then have "\<not> is_ws x" using assms by simp
    with Cons show ?thesis by simp
  qed
  ultimately show ?thesis by (simp add: trim_def)
qed

lemma radix_of_plain:
  assumes "\<forall>c \<in> set s. c \<notin> set ''xXoObB''"
  shows "radix_of s = None"
proof (cases s)
  case Nil
  then show ?thesis by (simp add: radix_of_def)
next
  case (Cons z r)
  show ?thesis
  proof (cases r)
    case Nil
    with Cons show ?thesis by (simp add: radix_of_def)
  next
    case (Cons c ds)
    with \<open>s = z # r\<close> assms have "c \<notin> set ''xXoObB''" by simp
    with Cons \<open>s = z # r\<close> show ?thesis by (simp add: radix_of_def)
  qed
qed

lemma decimal_literal_digits:
  assumes "s \<noteq> []"
    and "\<forall>c \<in> set s. c \<noteq> CHR ''e'' \<and> c \<noteq> CHR ''E'' \<and> c \<noteq> CHR ''.''"
    and "digits_val 10 s 0 = Some m"
  shows "decimal_literal s = Some (of_int m)"
proof -
  have t: "takeWhile (\<lambda>c. \<not> (c = CHR ''e'' \<or> c = CHR ''E'')) s = s"
    using assms(2) by (simp add: takeWhile_eq_all_conv)
  have d: "dropWhile (\<lambda>c. \<not> (c = CHR ''e'' \<or> c = CHR ''E'')) s = []"
    using assms(2) by simp
  have t': "takeWhile (\<lambda>c. c \<noteq> CHR ''.'') s = s"
    using assms(2) by (simp add: takeWhile_eq_all_conv)
  have d': "dropWhile (\<lambda>c. c \<noteq> CHR ''.'') s = []"
    using assms(2) by simp
  show ?thesis
    unfolding decimal_literal_def Let_def t d t' d'
    using assms(1,3) by (simp add: pow10_def)
qed

lemma show_nat_plain:
  assumes "c \<in> set (show_nat n)"
  shows "\<not> is_ws c \<and> c \<noteq> CHR ''e'' \<and> c \<noteq> CHR ''E'' \<and> c \<noteq> CHR ''.'' \<and>
         c \<noteq> CHR ''+'' \<and> c \<noteq> CHR ''-'' \<and> c \<noteq> CHR ''I'' \<and> c \<notin> set ''xXoObB''"
proof -
  from assms obtain d where "d < 10" and "c = digit_char d"
    using show_nat_digits by blast
  show ?thesis
    unfolding \<open>c = digit_char d\<close> using \<open>d < 10\<close> by (rule digit_char_plain)
qed

lemma StringToNumber_show_nat: "StringToNumber (show_nat n) = to_double (of_int (int n))"
proof -
  let ?s = "show_nat n"
  have tr: "trim ?s = ?s"
    by (rule trim_plain) (simp add: show_nat_plain)
  have ra: "radix_of ?s = None"
  proof (rule radix_of_plain, rule ballI)
    fix c
    assume "c \<in> set ?s"
    from show_nat_plain [OF this] show "c \<notin> set ''xXoObB''"
      by (elim conjE)
  qed
  have de: "decimal_literal ?s = Some (of_int (int n))"
    by (rule decimal_literal_digits [OF show_nat_nonempty _ digits_val_show_nat])
       (simp add: show_nat_plain)
  obtain c r where s: "?s = c # r"
    using show_nat_nonempty [of n] by (cases ?s) auto
  then have "c \<in> set ?s" by simp
  then have c: "c \<noteq> CHR ''+''" "c \<noteq> CHR ''-''" "c \<noteq> CHR ''I''"
    using show_nat_plain [of c n] by simp_all
  have i: "?s \<noteq> ''Infinity''"
    using s c by simp
  have "unsigned_literal ?s = to_double (of_int (int n))"
    using de i by (simp add: unsigned_literal_def)
  then show ?thesis
    unfolding StringToNumber_def Let_def tr ra
    using s c by simp
qed

lemma int_less_power2: "n < 2 ^ k \<Longrightarrow> int n < 2 ^ k"
proof -
  assume "n < 2 ^ k"
  then have "int n < int (2 ^ k)" by (simp only: of_nat_less_iff)
  then show ?thesis by simp
qed

lemma Number_show_nat:
  assumes "n < 2 ^ 53"
  shows "Number (QStr (show_nat n)) = Fin (of_nat n)"
proof (cases "n = 0")
  case True
  then show ?thesis
    by (simp add: Number_def StringToNumber_show_nat to_double_def)
next
  case False
  from assms have "int n < 2 ^ 53" by (rule int_less_power2)
  with False have "to_double (of_int (int n)) = Fin (of_int (int n))"
    by (intro to_double_int) simp_all
  then show ?thesis
    by (simp add: Number_def StringToNumber_show_nat)
qed

lemma effective_TTL_show_nat:
  assumes "n < 2 ^ 31"
  shows "effective_TTL (Some (QStr (show_nat n))) = max 10 (int n)"
proof -
  have "n < 2 ^ 53"
    using assms by (rule less_trans) simp
  then have N: "Number (QStr (show_nat n)) = Fin (of_nat n)"
    by (rule Number_show_nat)
  have q: "qtruthy (QStr (show_nat n))"
    by (simp add: show_nat_nonempty)
  have "int n < 2 ^ 31"
    using assms by (rule int_less_power2)
  then have "ToInt32 (Fin (of_nat n)) = int n"
    by (subst ToInt32_small) (simp_all add: trunc_zero_def)
  with N q show ?thesis
    by (simp add: effective_TTL_truthy)
qed

lemma show_nat_examples: "show_nat 5 = ''5''" "show_nat 120 = ''120''"
  by (simp_all add: show_nat.simps digit_char_def)

section \<open>The claims\<close>

text \<open>
  C1. For an upstream answer with a status in \<open>[200, 300)\<close> whose body parses as an array
  of events, the collection endpoint keeps in each event only the bookmakers whose title
  is in the allow-list, drops every event whose filtered bookmakers are empty, and sends
  the resulting array (possibly empty) as JSON text.
\<close>

theorem collection_keeps_allowed_bookmakers:
  assumes "miss Odds e req mem"
    and "upstream e (odds_url e (query_of req)) = Some (st, txt)"
    and "200 \<le> st" and "st < 300"
    and "JSON_parse e txt = Some (JArr evts)" and "list_all is_event evts"
  shows "odds_transform e txt = Inr (JSON_stringify (JArr (spec_collection evts))) \<and>
         out_res (odds_handler e req mem) =
           sent (request_TTL (query_of req)) st (JSON_stringify (JArr (spec_collection evts))) \<and>
         spec_collection evts =
           map NY_view (filter (\<lambda>evt. filter allowed_title (bookmakers_of evt) \<noteq> []) evts) \<and>
         (\<forall>evt. bookmakers_of (NY_view evt) = filter allowed_title (bookmakers_of evt)) \<and>
         (\<forall>out \<in> set (spec_collection evts).
            bookmakers_of out \<noteq> [] \<and> list_all allowed_title (bookmakers_of out))"
proof -
  have safe: "list_all safe_event evts"
    using assms(6) by (auto simp: list_all_iff is_event_safe)
  have t: "odds_transform e txt = Inr (JSON_stringify (JArr (spec_collection evts)))"
    using assms(5) safe by (rule odds_transform_array)
  have "odds_handler e req mem =
      \<lparr>out_res = sent (request_TTL (query_of req)) st (JSON_stringify (JArr (spec_collection evts))),
       out_mem = mem(odds_key (query_of req) \<mapsto>
         \<lparr>ts = now_store e, status = st, body = JSON_stringify (JArr (spec_collection evts))\<rparr>),
       out_calls = [odds_url e (query_of req)]\<rparr>"
    using assms(1,2) by (rule odds_handler_stored) (simp add: assms(3,4) t)
  then have h: "out_res (odds_handler e req mem) =
      sent (request_TTL (query_of req)) st (JSON_stringify (JArr (spec_collection evts)))"
    by simp
  show ?thesis
    using t h spec_collection_eq bookmakers_of_NY_view spec_collection_allowed by blast
qed

theorem collection_keeps_allowed_bookmakers_witness:
  "out_res (odds_handler (ex_env (Some (200, ''events'')) (Some (JArr ex_events)) 0 0)
              (ex_req []) Map.empty)
     = sent 60 200
         (JSON_stringify (JArr
            [JObj [(''id'', JStr ''e1''),
                   (''bookmakers'', JArr [JObj [(''title'', JStr ''FanDuel''), (''key'', JStr ''fd'')]]),
                   (''home_team'', JStr ''Jets'')]]))"
  using collection_keeps_allowed_bookmakers
    [of "ex_env (Some (200, ''events'')) (Some (JArr ex_events)) 0 0" "ex_req []" Map.empty
       200 "''events''" ex_events]
    ex_events_are_events
  by (simp add: ex_env_def miss_def fresh_hit_def ex_events_collection default_TTL
        query_of_def ex_req_def del: JSON_stringify.simps)

text \<open>
  C2, as amended. For an answer with a status in \<open>[200, 300)\<close> on the single-event endpoint:
  the version with \<^verbatim>\<open>filterEventToNY\<close> sends the parsed event with its bookmakers filtered to
  the allow-list (a missing bookmakers array counts as empty, and no bookmaker may be
  \<^verbatim>\<open>null\<close>), and the event is retained whatever is left; the version of
  \<^verbatim>\<open>api/events/[id].js\<close> filters nothing and sends the parsed event as it is, wrapped in a
  one-element array.
\<close>

theorem single_event_is_retained:
  assumes "req_query req \<noteq> None" and "miss EventNY e req mem"
    and "upstream e (url_of EventNY e req) = Some (st, txt)"
    and "200 \<le> st" and "st < 300"
    and "JSON_parse e txt = Some data"
  shows "(JNull \<notin> set (bookmakers_of data) \<longrightarrow>
            filterEventToNY data = Inr (NY_view data) \<and>
            out_res (handler EventNY e req mem) =
              sent (request_TTL (query_of req)) st (JSON_stringify (NY_view data))) \<and>
         bookmakers_of (NY_view data) = filter allowed_title (bookmakers_of data) \<and>
         (\<exists>fields. NY_view data = JObj fields) \<and>
         out_res (handler Event e req mem) =
           sent (request_TTL (query_of req)) st (JSON_stringify (JArr [data]))"
proof (intro conjI impI)
  assume n: "JNull \<notin> set (bookmakers_of data)"
  then show f: "filterEventToNY data = Inr (NY_view data)"
    by (simp add: filterEventToNY_eq)
  have "transform_of EventNY e txt = Inr (JSON_stringify (NY_view data))"
    using assms(6) f by (simp add: event_transform_NY_def)
  with assms(1-5) show "out_res (handler EventNY e req mem) =
      sent (request_TTL (query_of req)) st (JSON_stringify (NY_view data))"
    by (subst handler_stored [where b = "JSON_stringify (NY_view data)"]) simp_all
next
  show "bookmakers_of (NY_view data) = filter allowed_title (bookmakers_of data)"
    by (rule bookmakers_of_NY_view)
  show "\<exists>fields. NY_view data = JObj fields"
    by (simp add: NY_view_def with_bookmakers_def)
  have "transform_of Event e txt = Inr (JSON_stringify (JArr [data]))"
    using assms(6) by (simp add: event_transform_def)
  moreover have "miss Event e req mem"
    using assms(2) by (simp add: miss_def)
  ultimately show "out_res (handler Event e req mem) =
      sent (request_TTL (query_of req)) st (JSON_stringify (JArr [data]))"
    using assms(1,3-5)
    by (subst handler_stored [where b = "JSON_stringify (JArr [data])"]) simp_all
qed

theorem single_event_is_retained_witness:
  "out_res (handler EventNY (ex_env (Some (200, ''event'')) (Some ex_bovada_event) 0 0)
              (ex_req [(''id'', QStr ''e1'')]) Map.empty)
     = sent 60 200 (JSON_stringify (JObj [(''id'', JStr ''e1''), (''bookmakers'', JArr [])])) \<and>
   out_res (handler Event (ex_env (Some (200, ''event'')) (Some ex_bovada_event) 0 0)
              (ex_req [(''id'', QStr ''e1'')]) Map.empty)
     = sent 60 200 (JSON_stringify (JArr [ex_bovada_event]))"
proof -
  have q: "req_query (ex_req [(''id'', QStr ''e1'')]) \<noteq> None"
    by (simp add: ex_req_def)
  have t: "request_TTL (query_of (ex_req [(''id'', QStr ''e1'')])) = 60"
    by (simp add: query_of_def ex_req_def request_TTL_def effective_TTL_def DEFAULT_TTL_def
          ToInt32_def trunc_zero_def Let_def)
  have n: "JNull \<notin> set (bookmakers_of ex_bovada_event)"
    by (simp add: bookmakers_of_def ex_bovada_event_def)
  have u: "upstream (ex_env (Some (200, ''event'')) (Some ex_bovada_event) 0 0)
             (url_of EventNY (ex_env (Some (200, ''event'')) (Some ex_bovada_event) 0 0)
                (ex_req [(''id'', QStr ''e1'')])) = Some (200, ''event'')"
    by (simp only: ex_env_simps)
  have p: "JSON_parse (ex_env (Some (200, ''event'')) (Some ex_bovada_event) 0 0) ''event''
             = Some ex_bovada_event"
    by (simp only: ex_env_simps)
  show ?thesis
    using single_event_is_retained [OF q miss_empty u _ _ p] n
    unfolding t NY_view_bovada by simp
qed

text \<open>
  C2 as stated fails on \<^verbatim>\<open>api/events/[id].js\<close>: the body it sends for an event whose only
  bookmaker is Bovada still holds that bookmaker.
\<close>

theorem single_event_unfiltered_counterexample:
  "res_body (out_res (handler Event (ex_env (Some (200, ''event'')) (Some ex_bovada_event) 0 0)
                        (ex_req [(''id'', QStr ''e1'')]) Map.empty))
     = JSON_stringify
         (JArr [JObj [(''id'', JStr ''e1''),
                      (''bookmakers'', JArr [JObj [(''title'', JStr ''Bovada'')]])]]) \<and>
   \<not> allowed_title (JObj [(''title'', JStr ''Bovada'')]) \<and>
   res_body (out_res (handler Event (ex_env (Some (200, ''event'')) (Some ex_bovada_event) 0 0)
                        (ex_req [(''id'', QStr ''e1'')]) Map.empty))
     \<noteq> JSON_stringify (NY_view ex_bovada_event) \<and>
   res_body (out_res (handler Event (ex_env (Some (200, ''event'')) (Some ex_bovada_event) 0 0)
                        (ex_req [(''id'', QStr ''e1'')]) Map.empty))
     \<noteq> JSON_stringify (JArr [NY_view ex_bovada_event])"
proof -
  have "handler Event (ex_env (Some (200, ''event'')) (Some ex_bovada_event) 0 0)
          (ex_req [(''id'', QStr ''e1'')]) Map.empty =
      \<lparr>out_res = sent (request_TTL (query_of (ex_req [(''id'', QStr ''e1'')]))) 200
                   (JSON_stringify (JArr [ex_bovada_event])),
       out_mem = Map.empty(key_of Event (ex_req [(''id'', QStr ''e1'')]) \<mapsto>
          \<lparr>ts = now_store (ex_env (Some (200, ''event'')) (Some ex_bovada_event) 0 0),
           status = 200, body = JSON_stringify (JArr [ex_bovada_event])\<rparr>),
       out_calls = [url_of Event (ex_env (Some (200, ''event'')) (Some ex_bovada_event) 0 0)
                      (ex_req [(''id'', QStr ''e1'')])]\<rparr>"
    by (rule handler_stored)
       (simp_all add: ex_req_has_query miss_empty ex_env_simps event_transform_def
          del: JSON_stringify.simps url_of.simps)
  then have b: "res_body (out_res (handler Event (ex_env (Some (200, ''event'')) (Some ex_bovada_event) 0 0)
                        (ex_req [(''id'', QStr ''e1'')]) Map.empty))
      = JSON_stringify (JArr [ex_bovada_event])"
    by (simp add: sent_def del: JSON_stringify.simps)
  have s1: "JSON_stringify (JArr [ex_bovada_event]) \<noteq> JSON_stringify (NY_view ex_bovada_event)"
    unfolding NY_view_bovada by (simp add: ex_bovada_event_def)
  have s2: "JSON_stringify (JArr [ex_bovada_event]) \<noteq> JSON_stringify (JArr [NY_view ex_bovada_event])"
    unfolding NY_view_bovada by (simp add: ex_bovada_event_def)
  show ?thesis
    unfolding b using s1 s2 Bovada_not_allowed by (simp add: ex_bovada_event_def del: JSON_stringify.simps)
qed

text \<open>
  C3, as amended. The effective ttl of a request is the default 60 when the \<^verbatim>\<open>ttl\<close>
  parameter is absent or empty; otherwise it is \<^verbatim>\<open>Math.max(10, Number(ttl) | 0)\<close>, the
  parameter's signed 32-bit integer coercion clamped to the floor 10, and never below 10.
  A number \<open>r\<close> with \<open>10 \<le> r < 2 ^ 31\<close> is used, truncated; a number \<open>r\<close> with
  \<open>- (2 ^ 31) - 1 < r < 10\<close>, the non-positive ones of that range included, gives 10, not
  the default 60; a value that is not numeric gives 10, not 60; the decimal digits of
  \<open>n < 2 ^ 31\<close> give \<open>max 10 n\<close>. A number outside \<open>(- (2 ^ 31) - 1, 2 ^ 31)\<close> is reduced
  modulo \<open>2 ^ 32\<close> before it is clamped, so that not every negative value gives 10:
  \<^verbatim>\<open>ttl=-2147483649\<close> gives 2147483647. Every handler serves with this ttl.
\<close>

theorem ttl_default_and_floor:
  "effective_TTL None = 60 \<and>
   effective_TTL (Some (QStr [])) = 60 \<and>
   10 \<le> effective_TTL ttl \<and>
   (qtruthy v \<longrightarrow> effective_TTL (Some v) = max 10 (ToInt32 (Number v))) \<and>
   (qtruthy v \<and> Number v = Fin r \<longrightarrow>
      effective_TTL (Some v) = max 10 ((trunc_zero r + 2 ^ 31) mod 2 ^ 32 - 2 ^ 31)) \<and>
   effective_TTL (Some (QStr ''-2147483649'')) = 2147483647 \<and>
   (qtruthy v \<and> Number v = Fin r \<and> 10 \<le> r \<and> r < 2 ^ 31 \<longrightarrow> effective_TTL (Some v) = \<lfloor>r\<rfloor>) \<and>
   (qtruthy v \<and> Number v = Fin r \<and> - (2 ^ 31) - 1 < r \<and> r < 10 \<longrightarrow> effective_TTL (Some v) = 10) \<and>
   (qtruthy v \<and> Number v = NaN \<longrightarrow> effective_TTL (Some v) = 10) \<and>
   (n < 2 ^ 31 \<longrightarrow> effective_TTL (Some (QStr (show_nat n))) = max 10 (int n)) \<and>
   (has_query k req \<longrightarrow>
      handler k e req mem =
        serve e mem (effective_TTL (map_of (query_of req) ''ttl'')) (key_of k req) (url_of k e req)
          (transform_of k e))"
proof (intro conjI impI)
  show "effective_TTL None = 60" "effective_TTL (Some (QStr [])) = 60"
    by (rule effective_TTL_absent)+
  show "10 \<le> effective_TTL ttl" by (rule effective_TTL_floor)
  show "effective_TTL (Some (QStr ''-2147483649'')) = 2147483647"
    by (simp add: effective_TTL_truthy Number_below_int32 ToInt32_def trunc_zero_def Let_def)
next
  assume "qtruthy v"
  then show "effective_TTL (Some v) = max 10 (ToInt32 (Number v))"
    by (rule effective_TTL_truthy)
next
  assume "qtruthy v \<and> Number v = Fin r"
  then show "effective_TTL (Some v) = max 10 ((trunc_zero r + 2 ^ 31) mod 2 ^ 32 - 2 ^ 31)"
    by (simp only: effective_TTL_truthy ToInt32_wrap)
next
  assume "qtruthy v \<and> Number v = Fin r \<and> 10 \<le> r \<and> r < 2 ^ 31"
  then show "effective_TTL (Some v) = \<lfloor>r\<rfloor>"
    by (intro effective_TTL_in_range) simp_all
next
  assume "qtruthy v \<and> Number v = Fin r \<and> - (2 ^ 31) - 1 < r \<and> r < 10"
  then show "effective_TTL (Some v) = 10"
    by (intro effective_TTL_below [of v r]) simp_all
next
  assume "qtruthy v \<and> Number v = NaN"
  then show "effective_TTL (Some v) = 10"
    by (intro effective_TTL_NaN) simp_all
next
  assume "n < 2 ^ 31"
  then show "effective_TTL (Some (QStr (show_nat n))) = max 10 (int n)"
    by (rule effective_TTL_show_nat)
next
  assume "has_query k req"
  then show "handler k e req mem =
        serve e mem (effective_TTL (map_of (query_of req) ''ttl'')) (key_of k req) (url_of k e req)
          (transform_of k e)"
    by (simp only: handler_serve request_TTL_def)
qed

theorem ttl_default_and_floor_witness:
  "effective_TTL (Some (QStr ''120'')) = 120 \<and>
   effective_TTL (Some (QStr ''5'')) = 10 \<and>
   effective_TTL (Some (QStr ''75.5'')) = 75 \<and>
   effective_TTL (Some (QStr ''-5'')) = 10 \<and>
   effective_TTL (Some (QStr ''-2147483649'')) = 2147483647 \<and>
   effective_TTL None = 60"
proof -
  have a: "effective_TTL (Some (QStr ''120'')) = 120"
    using ttl_default_and_floor [where n = 120] by (simp add: show_nat_examples)
  have b: "effective_TTL (Some (QStr ''5'')) = 10"
    using ttl_default_and_floor [where n = 5] by (simp add: show_nat_examples)
  have N: "Number (QStr ''75.5'') = Fin (151 / 2)"
    by (simp add: parse_eval to_double_eval)
  have "qtruthy (QStr ''75.5'') \<and> Number (QStr ''75.5'') = Fin (151 / 2) \<and>
        10 \<le> (151 / 2 :: rat) \<and> (151 / 2 :: rat) < 2 ^ 31
        \<longrightarrow> effective_TTL (Some (QStr ''75.5'')) = \<lfloor>151 / 2 :: rat\<rfloor>"
    using ttl_default_and_floor [where v = "QStr ''75.5''" and r = "151 / 2"] by blast
  with N have c: "effective_TTL (Some (QStr ''75.5'')) = 75"
    by (simp add: floor_rat_numeral)
  have d: "effective_TTL None = 60"
    using ttl_default_and_floor by blast
  have "qtruthy (QStr ''-5'') \<and> Number (QStr ''-5'') = Fin (- 5) \<and>
        - (2 ^ 31) - 1 < (- 5 :: rat) \<and> (- 5 :: rat) < 10
        \<longrightarrow> effective_TTL (Some (QStr ''-5'')) = 10"
    using ttl_default_and_floor [where v = "QStr ''-5''" and r = "- 5"] by blast
  then have f: "effective_TTL (Some (QStr ''-5'')) = 10"
    by (simp add: Number_examples)
  have g: "effective_TTL (Some (QStr ''-2147483649'')) = 2147483647"
    using ttl_default_and_floor by blast
  from a b c d f g show ?thesis by blast
qed

text \<open>
  C3 as stated fails for the values that are not numeric or not positive: \<^verbatim>\<open>abc\<close> and
  \<^verbatim>\<open>-5\<close> give the floor 10, not the default 60.
\<close>

theorem ttl_non_numeric_counterexample:
  "Number (QStr ''abc'') = NaN \<and>
   effective_TTL (Some (QStr ''abc'')) = 10 \<and>
   effective_TTL (Some (QStr ''abc'')) \<noteq> 60 \<and>
   Number (QStr ''-5'') = Fin (- 5) \<and>
   effective_TTL (Some (QStr ''-5'')) = 10 \<and>
   effective_TTL (Some (QStr ''-5'')) \<noteq> 60"
proof -
  have a: "effective_TTL (Some (QStr ''abc'')) = 10"
    by (simp add: effective_TTL_NaN Number_examples)
  have b: "effective_TTL (Some (QStr ''-5'')) = 10"
    by (rule effective_TTL_below [of _ "- 5"]) (simp_all add: Number_examples)
  from a b show ?thesis by (simp add: Number_examples)
qed

text \<open>
  C4. On every request on which an internal fault occurs (no query object, a transport
  failure of the upstream call, a failure of \<^verbatim>\<open>JSON.parse\<close> or an exception of the filter on
  a \<open>2xx\<close> body), each of the three handlers answers with status 500, the body
  \<^verbatim>\<open>{"error":"Proxy error"}\<close> and the headers of the fixed ttl of 10 seconds, and leaves
  the cache as it found it.
\<close>

theorem fault_gives_proxy_error:
  "(fault k e req mem \<longrightarrow>
      out_res (handler k e req mem) = sent 10 500 proxy_error_body \<and>
      out_mem (handler k e req mem) = mem) \<and>
   (has_query k req \<and> miss k e req mem \<and> upstream e (url_of k e req) = None
      \<longrightarrow> fault k e req mem) \<and>
   (has_query k req \<and> miss k e req mem \<and> upstream e (url_of k e req) = Some (st, txt) \<and>
    200 \<le> st \<and> st < 300 \<and> JSON_parse e txt = None
      \<longrightarrow> fault k e req mem)"
proof (intro conjI impI)
  assume "fault k e req mem"
  then obtain calls where "handler k e req mem = proxy_error mem calls"
    using handler_fault by blast
  then show "out_res (handler k e req mem) = sent 10 500 proxy_error_body"
    and "out_mem (handler k e req mem) = mem"
    by (simp_all add: proxy_error_eq)
next
  assume "has_query k req \<and> miss k e req mem \<and> upstream e (url_of k e req) = None"
  then show "fault k e req mem" by (simp add: fault_def)
next
  assume "has_query k req \<and> miss k e req mem \<and> upstream e (url_of k e req) = Some (st, txt) \<and>
    200 \<le> st \<and> st < 300 \<and> JSON_parse e txt = None"
  then show "fault k e req mem" by (simp add: fault_def parse_failure_is_fault)
qed

theorem fault_gives_proxy_error_witness:
  "out_res (handler Odds (ex_env None None 0 0) (ex_req []) Map.empty) = sent 10 500 proxy_error_body \<and>
   out_mem (handler Odds (ex_env None None 0 0) (ex_req []) Map.empty) = Map.empty \<and>
   out_res (handler Event (ex_env (Some (200, ''<html>'')) None 0 0) (ex_req []) Map.empty)
     = sent 10 500 proxy_error_body \<and>
   out_mem (handler Event (ex_env (Some (200, ''<html>'')) None 0 0) (ex_req []) Map.empty) = Map.empty \<and>
   out_res (handler EventNY (ex_env None None 0 0) \<lparr>req_query = None\<rparr> Map.empty)
     = sent 10 500 proxy_error_body \<and>
   res_headers (sent 10 500 proxy_error_body) =
     [(''Cache-Control'', ''s-maxage=10, stale-while-revalidate=5''),
      (''Content-Type'', ''application/json; charset=utf-8''),
      (''Access-Control-Allow-Origin'', ''*'')]"
proof -
  have 1: "fault Odds (ex_env None None 0 0) (ex_req []) Map.empty"
    using fault_gives_proxy_error [of Odds "ex_env None None 0 0" "ex_req []" Map.empty]
    by (simp add: ex_env_simps ex_req_has_query miss_empty)
  have 2: "fault Event (ex_env (Some (200, ''<html>'')) None 0 0) (ex_req []) Map.empty"
    using fault_gives_proxy_error
      [of Event "ex_env (Some (200, ''<html>'')) None 0 0" "ex_req []" Map.empty 200 "''<html>''"]
    by (simp add: ex_env_simps ex_req_has_query miss_empty)
  have 3: "fault EventNY (ex_env None None 0 0) \<lparr>req_query = None\<rparr> Map.empty"
    by (simp add: fault_def)
  from 1 fault_gives_proxy_error [of Odds "ex_env None None 0 0" "ex_req []" Map.empty]
  have a: "out_res (handler Odds (ex_env None None 0 0) (ex_req []) Map.empty) = sent 10 500 proxy_error_body \<and>
   out_mem (handler Odds (ex_env None None 0 0) (ex_req []) Map.empty) = Map.empty"
    by blast
  from 2 fault_gives_proxy_error
      [of Event "ex_env (Some (200, ''<html>'')) None 0 0" "ex_req []" Map.empty]
  have b: "out_res (handler Event (ex_env (Some (200, ''<html>'')) None 0 0) (ex_req []) Map.empty)
     = sent 10 500 proxy_error_body \<and>
   out_mem (handler Event (ex_env (Some (200, ''<html>'')) None 0 0) (ex_req []) Map.empty) = Map.empty"
    by blast
  from 3 fault_gives_proxy_error [of EventNY "ex_env None None 0 0" "\<lparr>req_query = None\<rparr>" Map.empty]
  have c: "out_res (handler EventNY (ex_env None None 0 0) \<lparr>req_query = None\<rparr> Map.empty)
     = sent 10 500 proxy_error_body"
    by blast
  from a b c sent_error_headers [of proxy_error_body] show ?thesis by blast
qed

text \<open>
  C5. An upstream answer whose status is not in \<open>[200, 300)\<close> is sent with that status and
  with its body unchanged, and is stored under the request's key; a later request of the
  same key that arrives while the entry is fresh for its ttl gets the same status and body
  from the cache, and no upstream call is made for it.
\<close>

theorem error_status_passes_and_is_cached:
  assumes "has_query k req" and "miss k e req mem"
    and "upstream e (url_of k e req) = Some (st, txt)"
    and "\<not> (200 \<le> st \<and> st < 300)"
    and "has_query k req'" and "key_of k req' = key_of k req"
    and "(of_int (now_lookup e' - now_store e) :: rat) / 1000 < of_int (request_TTL (query_of req'))"
  shows "out_res (handler k e req mem) = sent (request_TTL (query_of req)) st txt \<and>
         out_calls (handler k e req mem) = [url_of k e req] \<and>
         out_mem (handler k e req mem) =
           mem(key_of k req \<mapsto> \<lparr>ts = now_store e, status = st, body = txt\<rparr>) \<and>
         out_res (handler k e' req' (out_mem (handler k e req mem)))
           = sent (request_TTL (query_of req')) st txt \<and>
         out_calls (handler k e' req' (out_mem (handler k e req mem))) = [] \<and>
         out_mem (handler k e' req' (out_mem (handler k e req mem))) = out_mem (handler k e req mem)"
proof -
  let ?entry = "\<lparr>ts = now_store e, status = st, body = txt\<rparr>"
  let ?mem' = "mem(key_of k req \<mapsto> ?entry)"
  have first: "handler k e req mem =
      \<lparr>out_res = sent (request_TTL (query_of req)) st txt, out_mem = ?mem',
       out_calls = [url_of k e req]\<rparr>"
    using assms(1-3) by (rule handler_stored) (simp add: assms(4))
  have "fresh_hit e' ?mem' (request_TTL (query_of req')) (key_of k req') = Some ?entry"
    using assms(6,7) by (simp add: fresh_hit_def is_fresh_def)
  with assms(5) have "handler k e' req' ?mem' =
      \<lparr>out_res = sent (request_TTL (query_of req')) (status ?entry) (body ?entry),
       out_mem = ?mem', out_calls = []\<rparr>"
    by (rule handler_hit)
  with first show ?thesis by simp
qed

theorem error_status_passes_and_is_cached_witness:
  "out_res (handler Odds (ex_env (Some (404, ''not found'')) None 0 1000) (ex_req []) Map.empty)
     = sent 60 404 ''not found'' \<and>
   out_res (handler Odds (ex_env None None 60999 61000) (ex_req [])
              (out_mem (handler Odds (ex_env (Some (404, ''not found'')) None 0 1000) (ex_req []) Map.empty)))
     = sent 60 404 ''not found'' \<and>
   out_calls (handler Odds (ex_env None None 60999 61000) (ex_req [])
              (out_mem (handler Odds (ex_env (Some (404, ''not found'')) None 0 1000) (ex_req []) Map.empty)))
     = []"
proof -
  have u: "upstream (ex_env (Some (404, ''not found'')) None 0 1000)
             (url_of Odds (ex_env (Some (404, ''not found'')) None 0 1000) (ex_req []))
           = Some (404, ''not found'')"
    by (simp only: ex_env_simps)
  have s: "\<not> (200 \<le> (404::int) \<and> (404::int) < 300)" by simp
  have f: "(of_int (now_lookup (ex_env None None 60999 61000)
                     - now_store (ex_env (Some (404, ''not found'')) None 0 1000)) :: rat) / 1000
           < of_int (request_TTL (query_of (ex_req [])))"
    by (simp add: ex_env_simps default_TTL_req)
  show ?thesis
    using error_status_passes_and_is_cached
      [OF ex_req_has_query miss_empty u s ex_req_has_query refl f]
    unfolding default_TTL_req by blast
qed

text \<open>
  C6. With an entry written at time \<open>T\<close> under the request's key, a request of effective
  ttl \<open>S\<close> that looks up at time \<open>T'\<close> is served from the cache, with the stored status
  and body and without an upstream call, exactly when \<open>(T' - T) / 1000 < S\<close>; otherwise the
  upstream is fetched.
\<close>

theorem hit_exactly_when_fresh:
  assumes "has_query k req" and "mem (key_of k req) = Some entry"
  shows "(out_calls (handler k e req mem) = [] \<longleftrightarrow>
            (of_int (now_lookup e - ts entry) :: rat) / 1000 < of_int (request_TTL (query_of req))) \<and>
         ((of_int (now_lookup e - ts entry) :: rat) / 1000 < of_int (request_TTL (query_of req)) \<longrightarrow>
            out_res (handler k e req mem) =
              sent (request_TTL (query_of req)) (status entry) (body entry) \<and>
            out_mem (handler k e req mem) = mem) \<and>
         (of_int (request_TTL (query_of req)) \<le> (of_int (now_lookup e - ts entry) :: rat) / 1000 \<longrightarrow>
            out_calls (handler k e req mem) = [url_of k e req])"
proof (cases "(of_int (now_lookup e - ts entry) :: rat) / 1000 < of_int (request_TTL (query_of req))")
  case True
  then have "fresh_hit e mem (request_TTL (query_of req)) (key_of k req) = Some entry"
    using assms(2) by (simp add: fresh_hit_def is_fresh_def)
  with assms(1) have "handler k e req mem =
      \<lparr>out_res = sent (request_TTL (query_of req)) (status entry) (body entry),
       out_mem = mem, out_calls = []\<rparr>"
    by (rule handler_hit)
  with True show ?thesis by simp
next
  case False
  then have "fresh_hit e mem (request_TTL (query_of req)) (key_of k req) = None"
    using assms(2) by (simp add: fresh_hit_def is_fresh_def)
  then have "out_calls (handler k e req mem) = [url_of k e req]"
    using assms(1) by (simp add: handler_serve serve_calls_miss)
  with False show ?thesis by simp
qed

theorem hit_exactly_when_fresh_witness:
  "out_calls (handler Odds (ex_env (Some (200, ''[]'')) (Some (JArr [])) 59999 60000) (ex_req [])
      (Map.empty(key_of Odds (ex_req []) \<mapsto> \<lparr>ts = 0, status = 404, body = ''gone''\<rparr>))) = [] \<and>
   out_res (handler Odds (ex_env (Some (200, ''[]'')) (Some (JArr [])) 59999 60000) (ex_req [])
      (Map.empty(key_of Odds (ex_req []) \<mapsto> \<lparr>ts = 0, status = 404, body = ''gone''\<rparr>)))
     = sent 60 404 ''gone'' \<and>
   out_calls (handler Odds (ex_env (Some (200, ''[]'')) (Some (JArr [])) 60000 60001) (ex_req [])
      (Map.empty(key_of Odds (ex_req []) \<mapsto> \<lparr>ts = 0, status = 404, body = ''gone''\<rparr>)))
     = [url_of Odds (ex_env (Some (200, ''[]'')) (Some (JArr [])) 60000 60001) (ex_req [])]"
proof -
  let ?mem = "Map.empty(key_of Odds (ex_req []) \<mapsto> \<lparr>ts = 0, status = 404, body = ''gone''\<rparr>)"
  have m: "?mem (key_of Odds (ex_req [])) = Some \<lparr>ts = 0, status = 404, body = ''gone''\<rparr>"
    by simp
  from hit_exactly_when_fresh
    [of Odds "ex_req []" ?mem _ "ex_env (Some (200, ''[]'')) (Some (JArr [])) 59999 60000",
     OF ex_req_has_query m]
  have a: "out_calls (handler Odds (ex_env (Some (200, ''[]'')) (Some (JArr [])) 59999 60000) (ex_req []) ?mem) = [] \<and>
     out_res (handler Odds (ex_env (Some (200, ''[]'')) (Some (JArr [])) 59999 60000) (ex_req []) ?mem)
       = sent 60 404 ''gone''"
    by (simp add: ex_env_simps default_TTL_req del: key_of.simps url_of.simps handler.simps)
  from hit_exactly_when_fresh
    [of Odds "ex_req []" ?mem _ "ex_env (Some (200, ''[]'')) (Some (JArr [])) 60000 60001",
     OF ex_req_has_query m]
  have b: "out_calls (handler Odds (ex_env (Some (200, ''[]'')) (Some (JArr [])) 60000 60001) (ex_req []) ?mem)
     = [url_of Odds (ex_env (Some (200, ''[]'')) (Some (JArr [])) 60000 60001) (ex_req [])]"
    by (simp add: ex_env_simps default_TTL_req del: key_of.simps url_of.simps handler.simps)
  from a b show ?thesis by blast
qed

text \<open>
  C7. For every path and every query mapping the cache key does not depend on an
  \<^verbatim>\<open>apiKey\<close> entry of the mapping: it is the key of the mapping without that entry, so two
  mappings that differ only in the presence, the place or the value of \<^verbatim>\<open>apiKey\<close> have the
  same key, and the key is the same for every credential value. The credential does not
  appear in the key: no property named \<^verbatim>\<open>apiKey\<close> is serialized, and a text occurs in the
  key exactly when it occurs in the key of the mapping without \<^verbatim>\<open>apiKey\<close>. The keys of the
  three handlers do not change with an \<^verbatim>\<open>apiKey\<close> parameter of the request either, and
  the only key under which a handler writes is that key of the request, in which the
  environment that holds the credential has no part.
\<close>

theorem cache_key_ignores_apiKey:
  "cacheKey path q = cacheKey path (delete_prop ''apiKey'' q) \<and>
   (delete_prop ''apiKey'' q = delete_prop ''apiKey'' q' \<longrightarrow> cacheKey path q = cacheKey path q') \<and>
   cacheKey path (q1 @ (''apiKey'', v) # q2) = cacheKey path (q1 @ q2) \<and>
   cacheKey path (q1 @ (''apiKey'', v) # q2) = cacheKey path (q1 @ (''apiKey'', v') # q2) \<and>
   ''apiKey'' \<notin> fst ` set (delete_prop ''apiKey'' q) \<and>
   (sublist c (cacheKey path q) \<longleftrightarrow> sublist c (cacheKey path (delete_prop ''apiKey'' q))) \<and>
   key_of k \<lparr>req_query = Some (p1 @ (''apiKey'', w) # p2)\<rparr> = key_of k \<lparr>req_query = Some (p1 @ p2)\<rparr> \<and>
   dom (out_mem (handler k e req mem)) \<subseteq> insert (key_of k req) (dom mem)"
proof (intro conjI impI)
  show "dom (out_mem (handler k e req mem)) \<subseteq> insert (key_of k req) (dom mem)"
    by (rule handler_writes_own_key)
  show "cacheKey path q = cacheKey path (delete_prop ''apiKey'' q)"
    by (rule cacheKey_deleted)
  then show "sublist c (cacheKey path q) \<longleftrightarrow> sublist c (cacheKey path (delete_prop ''apiKey'' q))"
    by simp
  show "cacheKey path (q1 @ (''apiKey'', v) # q2) = cacheKey path (q1 @ q2)"
    by (simp only: cacheKey_def delete_prop_entry)
  show "cacheKey path (q1 @ (''apiKey'', v) # q2) = cacheKey path (q1 @ (''apiKey'', v') # q2)"
    by (simp only: cacheKey_def delete_prop_entry)
  show "''apiKey'' \<notin> fst ` set (delete_prop ''apiKey'' q)"
    by (auto simp: delete_prop_def)
  show "key_of k \<lparr>req_query = Some (p1 @ (''apiKey'', w) # p2)\<rparr> = key_of k \<lparr>req_query = Some (p1 @ p2)\<rparr>"
    by (rule key_of_ignores_apiKey)
next
  assume "delete_prop ''apiKey'' q = delete_prop ''apiKey'' q'"
  then show "cacheKey path q = cacheKey path q'"
    by (simp only: cacheKey_def)
qed

theorem cache_key_ignores_apiKey_witness:
  "cacheKey ''odds'' [(''sport'', JStr ''nfl''), (''apiKey'', JStr ''k3y'')]
     = cacheKey ''odds'' [(''apiKey'', JStr ''other''), (''sport'', JStr ''nfl'')] \<and>
   cacheKey ''odds'' [(''sport'', JStr ''nfl''), (''apiKey'', JStr ''k3y'')]
     = cacheKey ''odds'' [(''sport'', JStr ''nfl'')]"
proof -
  have d: "delete_prop ''apiKey'' [(''sport'', JStr ''nfl''), (''apiKey'', JStr ''k3y'')]
         = delete_prop ''apiKey'' [(''apiKey'', JStr ''other''), (''sport'', JStr ''nfl'')]"
    by (simp add: delete_prop_def)
  have e: "delete_prop ''apiKey'' [(''sport'', JStr ''nfl''), (''apiKey'', JStr ''k3y'')]
         = delete_prop ''apiKey'' [(''sport'', JStr ''nfl'')]"
    by (simp add: delete_prop_def)
  from d cache_key_ignores_apiKey
         [of "''odds''" "[(''sport'', JStr ''nfl''), (''apiKey'', JStr ''k3y'')]"
             "[(''apiKey'', JStr ''other''), (''sport'', JStr ''nfl'')]"]
  have 1: "cacheKey ''odds'' [(''sport'', JStr ''nfl''), (''apiKey'', JStr ''k3y'')]
     = cacheKey ''odds'' [(''apiKey'', JStr ''other''), (''sport'', JStr ''nfl'')]"
    by blast
  from e cache_key_ignores_apiKey
         [of "''odds''" "[(''sport'', JStr ''nfl''), (''apiKey'', JStr ''k3y'')]"
             "[(''sport'', JStr ''nfl'')]"]
  have 2: "cacheKey ''odds'' [(''sport'', JStr ''nfl''), (''apiKey'', JStr ''k3y'')]
     = cacheKey ''odds'' [(''sport'', JStr ''nfl'')]"
    by blast
  from 1 2 show ?thesis by blast
qed

text \<open>
  C8. Whenever \<^verbatim>\<open>filterToNY\<close> returns on an array, the result holds the retained events in
  their order; in a retained event the names of the fields and every field other than
  \<^verbatim>\<open>bookmakers\<close> are unchanged, and the retained bookmakers keep their order.
\<close>

theorem collection_frame:
  assumes "filterToNY (JArr evts) = Inr out"
  shows "out = JArr (map NY_view (filter (\<lambda>evt. filter allowed_title (bookmakers_of evt) \<noteq> []) evts)) \<and>
         subseq (filter (\<lambda>evt. filter allowed_title (bookmakers_of evt) \<noteq> []) evts) evts \<and>
         (\<forall>evt \<in> set evts. filter allowed_title (bookmakers_of evt) \<noteq> [] \<longrightarrow>
            (\<exists>kvs kvs' bms.
               evt = JObj kvs \<and> map_of kvs ''bookmakers'' = Some (JArr bms) \<and>
               NY_view evt = JObj kvs' \<and>
               same_fields_but ''bookmakers'' kvs kvs' \<and>
               (\<forall>k. k \<noteq> ''bookmakers'' \<longrightarrow> map_of kvs' k = map_of kvs k) \<and>
               map_of kvs' ''bookmakers'' = Some (JArr (filter allowed_title bms)) \<and>
               subseq (filter allowed_title bms) bms))"
proof -
  have "list_all safe_event evts" and o: "out = JArr (spec_collection evts)"
    using assms by (auto simp: filterToNY_array split: if_splits)
  have frame: "\<exists>kvs kvs' bms.
               evt = JObj kvs \<and> map_of kvs ''bookmakers'' = Some (JArr bms) \<and>
               NY_view evt = JObj kvs' \<and>
               same_fields_but ''bookmakers'' kvs kvs' \<and>
               (\<forall>k. k \<noteq> ''bookmakers'' \<longrightarrow> map_of kvs' k = map_of kvs k) \<and>
               map_of kvs' ''bookmakers'' = Some (JArr (filter allowed_title bms)) \<and>
               subseq (filter allowed_title bms) bms"
    if "filter allowed_title (bookmakers_of evt) \<noteq> []" for evt
  proof -
    from that have "bookmakers_of evt \<noteq> []" by auto
    then obtain kvs where e: "evt = JObj kvs"
      and b: "map_of kvs ''bookmakers'' = Some (JArr (bookmakers_of evt))"
      using bookmakers_of_nonempty by blast
    let ?kvs' = "set_prop kvs ''bookmakers'' (JArr (filter allowed_title (bookmakers_of evt)))"
    have "NY_view evt = JObj ?kvs'"
      using e by (simp add: NY_view_object)
    moreover have "same_fields_but ''bookmakers'' kvs ?kvs'"
      using b by (simp add: same_fields_but_def map_fst_set_prop delete_set_prop)
    moreover have "\<forall>k. k \<noteq> ''bookmakers'' \<longrightarrow> map_of ?kvs' k = map_of kvs k"
      by (simp add: map_of_set_prop_other)
    moreover have "map_of ?kvs' ''bookmakers'' = Some (JArr (filter allowed_title (bookmakers_of evt)))"
      by (simp add: map_of_set_prop_same)
    ultimately show ?thesis
      using e b
      by (intro exI [of _ kvs] exI [of _ ?kvs'] exI [of _ "bookmakers_of evt"]) simp
  qed
  show ?thesis
  proof (intro conjI ballI impI)
    show "out = JArr (map NY_view (filter (\<lambda>evt. filter allowed_title (bookmakers_of evt) \<noteq> []) evts))"
      using o by (simp add: spec_collection_eq)
    show "subseq (filter (\<lambda>evt. filter allowed_title (bookmakers_of evt) \<noteq> []) evts) evts"
      by simp
  next
    fix evt
    assume "filter allowed_title (bookmakers_of evt) \<noteq> []"
    then show "\<exists>kvs kvs' bms.
               evt = JObj kvs \<and> map_of kvs ''bookmakers'' = Some (JArr bms) \<and>
               NY_view evt = JObj kvs' \<and>
               same_fields_but ''bookmakers'' kvs kvs' \<and>
               (\<forall>k. k \<noteq> ''bookmakers'' \<longrightarrow> map_of kvs' k = map_of kvs k) \<and>
               map_of kvs' ''bookmakers'' = Some (JArr (filter allowed_title bms)) \<and>
               subseq (filter allowed_title bms) bms"
      by (rule frame)
  qed
qed

theorem collection_frame_witness:
  "filterToNY (JArr ex_events) =
     Inr (JArr [JObj [(''id'', JStr ''e1''),
                      (''bookmakers'', JArr [JObj [(''title'', JStr ''FanDuel''), (''key'', JStr ''fd'')]]),
                      (''home_team'', JStr ''Jets'')]])"
proof -
  have r: "filterToNY (JArr ex_events) = Inr (JArr (spec_collection ex_events))"
    using ex_events_are_events by (simp add: filterToNY_array list_all_iff is_event_safe)
  from collection_frame [OF r] have "spec_collection ex_events =
      map NY_view (filter (\<lambda>evt. filter allowed_title (bookmakers_of evt) \<noteq> []) ex_events)"
    by simp
  with r show ?thesis
    by (simp add: ex_events_collection)
qed

text \<open>
  C9. When the body of a \<open>2xx\<close> answer on the collection endpoint parses as JSON that is
  not an array (an object, \<^verbatim>\<open>null\<close>, a number), \<^verbatim>\<open>filterToNY\<close> takes it for the empty
  array: no error is raised and the proxy answers with the upstream status and the body
  \<^verbatim>\<open>[]\<close>.
\<close>

theorem non_array_body_gives_empty_array:
  assumes "miss Odds e req mem"
    and "upstream e (odds_url e (query_of req)) = Some (st, txt)"
    and "200 \<le> st" and "st < 300"
    and "JSON_parse e txt = Some j" and "\<not> isArray j"
  shows "filterToNY j = Inr (JArr []) \<and>
         odds_transform e txt = Inr ''[]'' \<and>
         out_res (odds_handler e req mem) = sent (request_TTL (query_of req)) st ''[]''"
proof -
  have f: "filterToNY j = Inr (JArr [])"
    using assms(6) by (rule filterToNY_not_array)
  have t: "odds_transform e txt = Inr ''[]''"
    using assms(5) f by (simp add: odds_transform_def)
  have "odds_handler e req mem =
      \<lparr>out_res = sent (request_TTL (query_of req)) st ''[]'',
       out_mem = mem(odds_key (query_of req) \<mapsto> \<lparr>ts = now_store e, status = st, body = ''[]''\<rparr>),
       out_calls = [odds_url e (query_of req)]\<rparr>"
    unfolding odds_handler_def Let_def
    using assms(1-4) t by (intro serve_stored) (simp_all add: miss_def)
  with f t show ?thesis by simp
qed

theorem non_array_body_gives_empty_array_witness:
  "out_res (odds_handler (ex_env (Some (200, ''null'')) (Some JNull) 0 0) (ex_req []) Map.empty)
     = sent 60 200 ''[]''"
proof -
  have "request_TTL (query_of (ex_req [])) = 60"
    by (simp add: request_TTL_def query_of_def ex_req_def effective_TTL_def DEFAULT_TTL_def
          ToInt32_def trunc_zero_def Let_def)
  then show ?thesis
    using non_array_body_gives_empty_array
      [of "ex_env (Some (200, ''null'')) (Some JNull) 0 0" "ex_req []" Map.empty 200 "''null''" JNull]
    by (simp add: ex_env_def miss_def fresh_hit_def)
qed



end
